theory Spec2Isabelle
  imports Main
begin

section \<open>Session state and tally logic (src/game/GameState.ts)\<close>

text \<open>
  The status of a session, the allowed discussion lengths (the TypeScript type
  \<^verbatim>\<open>5 | 7 | 10\<close>, so no other number is a duration) and the two possible winners.
\<close>

datatype GameStatus = Idle | VotingDuration | AssigningRoles | Discussion | Voting | Ended

datatype GameDuration = D5 | D7 | D10

fun minutes :: "GameDuration \<Rightarrow> nat" where
  "minutes D5 = 5"
| "minutes D7 = 7"
| "minutes D10 = 10"

datatype Winner = ImposterWins | GroupWins

record Player =
  inboxId :: string
  address :: string
  isImposter :: bool
  hasVoted :: bool
  votedFor :: "string option"

record DurationVote =
  voterInboxId :: string
  duration :: GameDuration

text \<open>
  A JavaScript \<^verbatim>\<open>Map\<close> iterates in insertion order and \<^verbatim>\<open>set\<close> on a key
  that is present replaces the value where the key already stands. The tallies iterate
  over maps, so a map is an association list with exactly that \<^verbatim>\<open>set\<close>.
\<close>

type_synonym ('k, 'v) jsmap = "('k \<times> 'v) list"

fun map_set :: "'k \<Rightarrow> 'v \<Rightarrow> ('k, 'v) jsmap \<Rightarrow> ('k, 'v) jsmap" where
  "map_set k v [] = [(k, v)]"
| "map_set k v (e # m) = (if fst e = k then (k, v) # m else e # map_set k v m)"

definition map_get :: "('k, 'v) jsmap \<Rightarrow> 'k \<Rightarrow> 'v option" where
  "map_get m k = map_of m k"

definition map_has :: "('k, 'v) jsmap \<Rightarrow> 'k \<Rightarrow> bool" where
  "map_has m k = (map_of m k \<noteq> None)"

definition map_values :: "('k, 'v) jsmap \<Rightarrow> 'v list" where
  "map_values m = map snd m"

definition map_keys :: "('k, 'v) jsmap \<Rightarrow> 'k list" where
  "map_keys m = map fst m"

record GameState =
  groupId :: string
  status :: GameStatus
  durationVotes :: "DurationVote list"
  selectedDuration :: "GameDuration option"
  players :: "(string, Player) jsmap"
  imposterInboxId :: "string option"
  secretWord :: "string option"
  startedAt :: "nat option"
  discussionEndTime :: "nat option"
  currentSpeakerInboxId :: "string option"
  votingStartedAt :: "nat option"
  votes :: "(string, string) jsmap"
  votedOutInboxId :: "string option"
  winner :: "Winner option"

definition createGameState :: "string \<Rightarrow> GameState" where
  "createGameState g =
     \<lparr> groupId = g, status = Idle, durationVotes = [], selectedDuration = None,
       players = [], imposterInboxId = None, secretWord = None, startedAt = None,
       discussionEndTime = None, currentSpeakerInboxId = None, votingStartedAt = None,
       votes = [], votedOutInboxId = None, winner = None \<rparr>"

definition isGameActive :: "GameState \<Rightarrow> bool" where
  "isGameActive s = (status s \<noteq> Idle \<and> status s \<noteq> Ended)"

definition getPlayerCount :: "GameState \<Rightarrow> nat" where
  "getPlayerCount s = length (players s)"

definition getPlayer :: "GameState \<Rightarrow> string \<Rightarrow> Player option" where
  "getPlayer s i = map_get (players s) i"

definition addPlayer :: "GameState \<Rightarrow> string \<Rightarrow> string \<Rightarrow> GameState" where
  "addPlayer s i a =
     (if \<not> map_has (players s) i
      then s\<lparr>players := map_set i
               \<lparr> inboxId = i, address = a, isImposter = False, hasVoted = False,
                 votedFor = None \<rparr> (players s)\<rparr>
      else s)"

text \<open>
  \<^verbatim>\<open>setImposter\<close> mutates the player object that the map holds; in the model the
  entry is replaced where it stands.
\<close>

definition setImposter :: "GameState \<Rightarrow> string \<Rightarrow> GameState" where
  "setImposter s i =
     (case map_get (players s) i of
        None \<Rightarrow> s
      | Some p \<Rightarrow> s\<lparr>players := map_set i (p\<lparr>isImposter := True\<rparr>) (players s),
                    imposterInboxId := Some i\<rparr>)"

definition recordDurationVote :: "GameState \<Rightarrow> string \<Rightarrow> GameDuration \<Rightarrow> GameState" where
  "recordDurationVote s v d =
     s\<lparr>durationVotes :=
         filter (\<lambda>x. voterInboxId x \<noteq> v) (durationVotes s)
         @ [\<lparr> voterInboxId = v, duration = d \<rparr>]\<rparr>"

text \<open>
  Both tallies run the same two loops: the first counts each option in a
  \<^verbatim>\<open>Map\<close> (\<^verbatim>\<open>counts.set(k, (counts.get(k) || 0) + 1)\<close>), the second walks the
  entries of that map and keeps the first entry whose count is strictly greater than
  every count before it.
\<close>

definition count_step :: "('a, nat) jsmap \<Rightarrow> 'a \<Rightarrow> ('a, nat) jsmap" where
  "count_step counts k =
     map_set k ((case map_get counts k of None \<Rightarrow> 0 | Some n \<Rightarrow> n) + 1) counts"

definition count_all :: "'a list \<Rightarrow> ('a, nat) jsmap" where
  "count_all xs = foldl count_step [] xs"

definition max_step :: "nat \<times> 'a option \<Rightarrow> 'a \<times> nat \<Rightarrow> nat \<times> 'a option" where
  "max_step acc e = (if snd e > fst acc then (snd e, Some (fst e)) else acc)"

definition max_entry :: "('a, nat) jsmap \<Rightarrow> nat \<times> 'a option" where
  "max_entry counts = foldl max_step (0, None) counts"

definition calculateWinningDuration :: "GameState \<Rightarrow> GameDuration option" where
  "calculateWinningDuration s =
     (if length (durationVotes s) = 0 then None
      else snd (max_entry (count_all (map duration (durationVotes s)))))"

text \<open>
  \<^verbatim>\<open>recordVote\<close> stores the accusation and, when the voter is a player, marks the
  player object.
\<close>

definition recordVote :: "GameState \<Rightarrow> string \<Rightarrow> string \<Rightarrow> GameState" where
  "recordVote s v t =
     (let s' = s\<lparr>votes := map_set v t (votes s)\<rparr>
      in case map_get (players s') v of
           None \<Rightarrow> s'
         | Some p \<Rightarrow> s'\<lparr>players :=
                          map_set v (p\<lparr>hasVoted := True, votedFor := Some t\<rparr>) (players s')\<rparr>)"

text \<open>
  \<^verbatim>\<open>if (!votedOutInboxId) return null\<close> is true for \<^verbatim>\<open>null\<close> and for the empty
  string, so a top identifier that is the empty string gives no result.
\<close>

definition calculateVoteResults :: "GameState \<Rightarrow> (string \<times> nat) option" where
  "calculateVoteResults s =
     (if length (votes s) = 0 then None
      else case max_entry (count_all (map_values (votes s))) of
             (maxCount, None) \<Rightarrow> None
           | (maxCount, Some v) \<Rightarrow> if v = [] then None else Some (v, maxCount))"

definition determineWinner :: "GameState \<Rightarrow> string \<Rightarrow> Winner" where
  "determineWinner s v = (if Some v = imposterInboxId s then GroupWins else ImposterWins)"

definition resetGameState :: "GameState \<Rightarrow> GameState" where
  "resetGameState s =
     s\<lparr> status := Idle, durationVotes := [], selectedDuration := None, players := [],
        imposterInboxId := None, secretWord := None, startedAt := None,
        discussionEndTime := None, currentSpeakerInboxId := None,
        votingStartedAt := None, votes := [], votedOutInboxId := None, winner := None \<rparr>"

section \<open>The orchestrator (class GameManager)\<close>

text \<open>
  The manager owns the sessions (\<^verbatim>\<open>games\<close>), one tracked timer handle per group
  (\<^verbatim>\<open>timers\<close>) and, through the runtime, the queue of armed timeouts. A timeout is
  a handle, its delay in milliseconds and the callback it runs. What the manager sends is
  collected in \<^verbatim>\<open>outbox\<close>. Every handler runs to its end before the next event
  is looked at; interleaving at an \<^verbatim>\<open>await\<close> inside a handler is outside the
  model, and a group message is taken to be sent without an exception.
\<close>

datatype Callback =
    CbFinalizeDurationVote string
  | CbSelectRandomSpeaker string
  | CbEndDiscussion string
  | CbFinalizeVoting string
  | CbResetState string

datatype Message =
    MsgAlreadyInProgress
  | MsgNeedThreePlayers
  | MsgGameStarting
  | MsgDurationPoll nat
  | MsgNoDurationVotes
  | MsgDurationSelected GameDuration
  | MsgNotEnoughPlayers
  | MsgDmFailed
  | MsgRolesAssigned nat nat
  | MsgSpeaker string "GameDuration option"
  | MsgTimesUp
  | MsgVotingPoll nat "(string \<times> string) list"
  | MsgNoVotesDraw
  | MsgVoteError
  | MsgResults string nat bool string "string option" Winner "(string \<times> string) list"
  | MsgNoActiveGame
  | MsgGameCancelled

datatype DirectMessage = DmImposter | DmSecretWord string

datatype Outgoing = ToGroup string Message | ToPlayer string DirectMessage

datatype JsError = TypeError

text \<open>
  What a handler reads from its collaborators when it runs: the clock, the membership of
  the group, the bot's own identity, the identifier registered for an inbox, whether a
  direct message to a player goes through, the three random draws and the name service.
\<close>

record Env =
  now :: nat
  members :: "string list"
  botInboxId :: string
  identifierOf :: "string \<Rightarrow> string option"
  dmDelivered :: "string \<Rightarrow> bool"
  randImposter :: nat
  randWord :: nat
  randSpeaker :: nat
  resolveName :: "string \<Rightarrow> string"

record Manager =
  games :: "(string, GameState) jsmap"
  timers :: "(string, nat) jsmap"
  pending :: "(nat \<times> nat \<times> Callback) list"
  nextHandle :: nat
  outbox :: "Outgoing list"

definition newManager :: Manager where
  "newManager = \<lparr> games = [], timers = [], pending = [], nextHandle = 0, outbox = [] \<rparr>"

definition WORD_LIST :: "string list" where
  "WORD_LIST =
    [''Pizza'', ''Hamburger'', ''Sushi'', ''Taco'', ''Coffee'', ''Smoothie'', ''Pancakes'',
     ''Chocolate'', ''Popcorn'', ''Ice Cream'', ''Elephant'', ''Penguin'', ''Dolphin'',
     ''Giraffe'', ''Butterfly'', ''Kangaroo'', ''Octopus'', ''Flamingo'', ''Hedgehog'',
     ''Chameleon'', ''Smartphone'', ''Laptop'', ''Headphones'', ''Keyboard'', ''Camera'',
     ''Drone'', ''Router'', ''Smartwatch'', ''Tablet'', ''USB Cable'', ''Rainbow'',
     ''Waterfall'', ''Mountain'', ''Volcano'', ''Aurora'', ''Sunset'', ''Lightning'',
     ''Tornado'', ''Earthquake'', ''Tsunami'', ''Basketball'', ''Soccer'', ''Chess'',
     ''Bowling'', ''Surfing'', ''Skateboard'', ''Tennis'', ''Golf'', ''Baseball'',
     ''Swimming'', ''Umbrella'', ''Sunglasses'', ''Backpack'', ''Watch'', ''Bicycle'',
     ''Skateboard'', ''Telescope'', ''Microscope'', ''Globe'', ''Compass'', ''Guitar'',
     ''Piano'', ''Microphone'', ''Karaoke'', ''Cinema'', ''Painting'', ''Sculpture'',
     ''Theater'', ''Concert'', ''Festival'', ''Astronaut'', ''Rocket'', ''Satellite'',
     ''Galaxy'', ''Telescope'', ''Black Hole'', ''Comet'', ''Meteor'', ''Space Station'',
     ''Mars Rover'', ''Dragon'', ''Unicorn'', ''Phoenix'', ''Mermaid'', ''Wizard'',
     ''Fairy'', ''Giant'', ''Centaur'', ''Kraken'', ''Griffin'', ''Chef'', ''Firefighter'',
     ''Astronaut'', ''Detective'', ''Scientist'', ''Artist'', ''Musician'', ''Pilot'',
     ''Surgeon'', ''Architect'', ''Airplane'', ''Submarine'', ''Helicopter'',
     ''Hot Air Balloon'', ''Roller Coaster'', ''Spaceship'', ''Cruise Ship'',
     ''Motorcycle'', ''Train'', ''Scooter'', ''Snowflake'', ''Sunshine'', ''Raindrop'',
     ''Thunder'', ''Breeze'', ''Fog'', ''Hailstorm'', ''Blizzard'', ''Hurricane'',
     ''Sandstorm'']"

text \<open>
  \<^verbatim>\<open>Math.floor(Math.random() * n)\<close> is an index below \<open>n\<close>, and \<open>0\<close> when
  \<open>n\<close> is \<open>0\<close>; the draw \<open>r\<close> stands for the random number.
\<close>

definition randomIndex :: "nat \<Rightarrow> nat \<Rightarrow> nat" where
  "randomIndex r n = (if n = 0 then 0 else r mod n)"

definition getRandomWord :: "Env \<Rightarrow> string" where
  "getRandomWord env = WORD_LIST ! randomIndex (randWord env) (length WORD_LIST)"

definition map_delete :: "'k \<Rightarrow> ('k, 'v) jsmap \<Rightarrow> ('k, 'v) jsmap" where
  "map_delete k m = filter (\<lambda>e. fst e \<noteq> k) m"

definition getGameState :: "Manager \<Rightarrow> string \<Rightarrow> GameState \<times> Manager" where
  "getGameState m g =
     (case map_get (games m) g of
        Some s \<Rightarrow> (s, m)
      | None \<Rightarrow> (createGameState g, m\<lparr>games := map_set g (createGameState g) (games m)\<rparr>))"

text \<open>
  The session object is mutated in place; \<open>store\<close> writes the changed session back
  under its group. \<open>session\<close> is the session a handler would get for the group and
  \<open>ensured\<close> the manager after the handler asked for it.
\<close>

definition store :: "Manager \<Rightarrow> string \<Rightarrow> GameState \<Rightarrow> Manager" where
  "store m g s = m\<lparr>games := map_set g s (games m)\<rparr>"

definition session :: "Manager \<Rightarrow> string \<Rightarrow> GameState" where
  "session m g = fst (getGameState m g)"

definition ensured :: "Manager \<Rightarrow> string \<Rightarrow> Manager" where
  "ensured m g = snd (getGameState m g)"

definition send :: "Manager \<Rightarrow> string \<Rightarrow> Message \<Rightarrow> Manager" where
  "send m g msg = m\<lparr>outbox := outbox m @ [ToGroup g msg]\<rparr>"

definition setTimeout :: "Manager \<Rightarrow> Callback \<Rightarrow> nat \<Rightarrow> nat \<times> Manager" where
  "setTimeout m cb d =
     (nextHandle m,
      m\<lparr>pending := pending m @ [(nextHandle m, d, cb)], nextHandle := nextHandle m + 1\<rparr>)"

definition clearTimeout :: "Manager \<Rightarrow> nat \<Rightarrow> Manager" where
  "clearTimeout m h = m\<lparr>pending := filter (\<lambda>t. fst t \<noteq> h) (pending m)\<rparr>"

definition setTimer :: "Manager \<Rightarrow> string \<Rightarrow> Callback \<Rightarrow> nat \<Rightarrow> Manager" where
  "setTimer m g cb d =
     (let m1 = (case map_get (timers m) g of Some h \<Rightarrow> clearTimeout m h | None \<Rightarrow> m);
          (h, m2) = setTimeout m1 cb d
      in m2\<lparr>timers := map_set g h (timers m2)\<rparr>)"

definition clearTimer :: "Manager \<Rightarrow> string \<Rightarrow> Manager" where
  "clearTimer m g =
     (case map_get (timers m) g of
        Some h \<Rightarrow> (clearTimeout m h)\<lparr>timers := map_delete g (timers m)\<rparr>
      | None \<Rightarrow> m)"

definition startGame :: "Manager \<Rightarrow> Env \<Rightarrow> string \<Rightarrow> Manager" where
  "startGame m env g =
     (let (s, m1) = getGameState m g
      in if isGameActive s then send m1 g MsgAlreadyInProgress
         else if length (members env) < 3 then send m1 g MsgNeedThreePlayers
         else let m2 = store m1 g ((resetGameState s)\<lparr>status := VotingDuration\<rparr>);
                  m3 = send m2 g MsgGameStarting;
                  m4 = send m3 g (MsgDurationPoll (now env))
              in setTimer m4 g (CbFinalizeDurationVote g) 60000)"

definition handleDurationVote :: "Manager \<Rightarrow> string \<Rightarrow> string \<Rightarrow> GameDuration \<Rightarrow> Manager" where
  "handleDurationVote m g v d =
     (let (s, m1) = getGameState m g
      in if status s \<noteq> VotingDuration then m1
         else store m1 g (recordDurationVote s v d))"

definition addressOf :: "Env \<Rightarrow> string \<Rightarrow> string" where
  "addressOf env i =
     (case identifierOf env i of None \<Rightarrow> i | Some a \<Rightarrow> if a = [] then i else a)"

definition addMembers :: "Env \<Rightarrow> GameState \<Rightarrow> GameState" where
  "addMembers env s =
     foldl (\<lambda>s i. if i \<noteq> botInboxId env then addPlayer s i (addressOf env i) else s)
       s (members env)"

text \<open>
  The loop that sends every player the role: a delivery that fails is caught and not
  counted.
\<close>

fun dmRoles :: "Env \<Rightarrow> string \<Rightarrow> Player list \<Rightarrow> Outgoing list \<times> nat" where
  "dmRoles env w [] = ([], 0)"
| "dmRoles env w (p # ps) =
     (let (out, n) = dmRoles env w ps
      in if dmDelivered env (inboxId p)
         then (ToPlayer (inboxId p) (if isImposter p then DmImposter else DmSecretWord w) # out,
               n + 1)
         else (out, n))"

definition assignRoles :: "Manager \<Rightarrow> Env \<Rightarrow> string \<Rightarrow> Manager" where
  "assignRoles m env g =
     (let (s0, m1) = getGameState m g;
          s1 = s0\<lparr>status := AssigningRoles\<rparr>;
          ps = filter (\<lambda>i. i \<noteq> botInboxId env) (members env)
      in if length ps < 3
         then store (send (store m1 g s1) g MsgNotEnoughPlayers) g (resetGameState s1)
         else let s2 = addMembers env s1;
                  s3 = setImposter s2 (ps ! randomIndex (randImposter env) (length ps));
                  w = getRandomWord env;
                  s4 = s3\<lparr>secretWord := Some w\<rparr>;
                  (out, n) = dmRoles env w (map_values (players s4));
                  m2 = (store m1 g s4)\<lparr>outbox := outbox m1 @ out\<rparr>
              in if n = 0
                 then store (send m2 g MsgDmFailed) g (resetGameState s4)
                 else snd (setTimeout (send m2 g (MsgRolesAssigned n (length ps)))
                             (CbSelectRandomSpeaker g) 2000))"

definition finalizeDurationVote :: "Manager \<Rightarrow> Env \<Rightarrow> string \<Rightarrow> Manager" where
  "finalizeDurationVote m env g =
     (let (s, m1) = getGameState m g
      in if status s \<noteq> VotingDuration then m1
         else case calculateWinningDuration s of
                None \<Rightarrow> store (send m1 g MsgNoDurationVotes) g (resetGameState s)
              | Some w \<Rightarrow>
                  assignRoles
                    (send (store m1 g (s\<lparr>selectedDuration := Some w\<rparr>)) g
                       (MsgDurationSelected w))
                    env g)"

definition startDiscussionPhase :: "Manager \<Rightarrow> Env \<Rightarrow> string \<Rightarrow> Manager" where
  "startDiscussionPhase m env g =
     (let (s, m1) = getGameState m g;
          durationMs = (case selectedDuration s of None \<Rightarrow> 5 | Some d \<Rightarrow> minutes d)
                         * 60 * 1000;
          s1 = s\<lparr>status := Discussion, startedAt := Some (now env),
                 discussionEndTime := Some (now env + durationMs)\<rparr>
      in setTimer (store m1 g s1) g (CbEndDiscussion g) durationMs)"

text \<open>
  With no player in the session \<^verbatim>\<open>playerArray[randomIndex]\<close> is
  \<^verbatim>\<open>undefined\<close> and reading its \<^verbatim>\<open>inboxId\<close> throws before anything is changed.
\<close>

definition selectRandomSpeaker ::
  "Manager \<Rightarrow> Env \<Rightarrow> string \<Rightarrow> (JsError \<times> Manager) + Manager" where
  "selectRandomSpeaker m env g =
     (let (s, m1) = getGameState m g;
          playerArray = map_values (players s);
          i = randomIndex (randSpeaker env) (length playerArray)
      in if i < length playerArray
         then let speaker = playerArray ! i;
                  s1 = s\<lparr>currentSpeakerInboxId := Some (inboxId speaker)\<rparr>;
                  m2 = send (store m1 g s1) g
                         (MsgSpeaker (resolveName env (address speaker)) (selectedDuration s1))
              in Inr (startDiscussionPhase m2 env g)
         else Inl (TypeError, m1))"

definition startVotingPhase :: "Manager \<Rightarrow> Env \<Rightarrow> string \<Rightarrow> Manager" where
  "startVotingPhase m env g =
     (let (s, m1) = getGameState m g;
          s1 = s\<lparr>status := Voting, votingStartedAt := Some (now env)\<rparr>;
          actions = map (\<lambda>p. (inboxId p, resolveName env (address p)))
                      (map_values (players s1));
          m2 = send (store m1 g s1) g (MsgVotingPoll (now env) actions)
      in setTimer m2 g (CbFinalizeVoting g) 60000)"

definition endDiscussionPhase :: "Manager \<Rightarrow> Env \<Rightarrow> string \<Rightarrow> Manager" where
  "endDiscussionPhase m env g =
     (let (s, m1) = getGameState m g
      in if status s \<noteq> Discussion then m1
         else startVotingPhase (send m1 g MsgTimesUp) env g)"

definition handlePlayerVote :: "Manager \<Rightarrow> string \<Rightarrow> string \<Rightarrow> string \<Rightarrow> Manager" where
  "handlePlayerVote m g v t =
     (let (s, m1) = getGameState m g
      in if status s \<noteq> Voting then m1
         else store m1 g (recordVote s v t))"

definition playerLabel :: "Env \<Rightarrow> GameState \<Rightarrow> string \<Rightarrow> string" where
  "playerLabel env s i =
     (case map_get (players s) i of None \<Rightarrow> i | Some p \<Rightarrow> resolveName env (address p))"

definition resultsMessage :: "Env \<Rightarrow> GameState \<Rightarrow> Player \<Rightarrow> nat \<Rightarrow> Winner \<Rightarrow> Message" where
  "resultsMessage env s votedOutPlayer voteCount w =
     MsgResults
       (resolveName env (address votedOutPlayer))
       voteCount
       (isImposter votedOutPlayer)
       (case (case imposterInboxId s of None \<Rightarrow> None | Some i \<Rightarrow> map_get (players s) i) of
          None \<Rightarrow> ''Unknown''
        | Some p \<Rightarrow> resolveName env (address p))
       (secretWord s)
       w
       (map (\<lambda>e. (playerLabel env s (fst e), playerLabel env s (snd e))) (votes s))"

definition finalizeVoting :: "Manager \<Rightarrow> Env \<Rightarrow> string \<Rightarrow> Manager" where
  "finalizeVoting m env g =
     (let (s, m1) = getGameState m g
      in if status s \<noteq> Voting then m1
         else case calculateVoteResults s of
                None \<Rightarrow> store (send m1 g MsgNoVotesDraw) g (resetGameState s)
              | Some (votedOut, voteCount) \<Rightarrow>
                  (case map_get (players s) votedOut of
                     None \<Rightarrow> store (send m1 g MsgVoteError) g (resetGameState s)
                   | Some votedOutPlayer \<Rightarrow>
                       let w = determineWinner s votedOut;
                           s1 = s\<lparr>votedOutInboxId := Some votedOut, winner := Some w\<rparr>;
                           m2 = send (store m1 g s1) g
                                  (resultsMessage env s1 votedOutPlayer voteCount w);
                           m3 = store m2 g (s1\<lparr>status := Ended\<rparr>)
                       in snd (setTimeout m3 (CbResetState g) 5000)))"

definition getGameStatus :: "Manager \<Rightarrow> string \<Rightarrow> GameState option" where
  "getGameStatus m g = map_get (games m) g"

definition cancelGame :: "Manager \<Rightarrow> string \<Rightarrow> Manager" where
  "cancelGame m g =
     (let (s, m1) = getGameState m g
      in if \<not> isGameActive s then send m1 g MsgNoActiveGame
         else send (store (clearTimer m1 g) g (resetGameState s)) g MsgGameCancelled)"

definition shutdown :: "Manager \<Rightarrow> Manager" where
  "shutdown m =
     m\<lparr>pending := filter (\<lambda>t. fst t \<notin> set (map_values (timers m))) (pending m),
       timers := []\<rparr>"

text \<open>
  The runtime fires an armed timeout: the timeout leaves the queue and its callback
  runs. The closure armed by \<^verbatim>\<open>finalizeVoting\<close> holds the session object itself
  and resets it.
\<close>

definition runCallback :: "Manager \<Rightarrow> Env \<Rightarrow> Callback \<Rightarrow> (JsError \<times> Manager) + Manager" where
  "runCallback m env cb =
     (case cb of
        CbFinalizeDurationVote g \<Rightarrow> Inr (finalizeDurationVote m env g)
      | CbSelectRandomSpeaker g \<Rightarrow> selectRandomSpeaker m env g
      | CbEndDiscussion g \<Rightarrow> Inr (endDiscussionPhase m env g)
      | CbFinalizeVoting g \<Rightarrow> Inr (finalizeVoting m env g)
      | CbResetState g \<Rightarrow>
          Inr (case map_get (games m) g of
                 None \<Rightarrow> m
               | Some s \<Rightarrow> store m g (resetGameState s)))"

definition fire :: "Manager \<Rightarrow> Env \<Rightarrow> nat \<Rightarrow> (JsError \<times> Manager) + Manager" where
  "fire m env h =
     (case find (\<lambda>t. fst t = h) (pending m) of
        None \<Rightarrow> Inr m
      | Some t \<Rightarrow> runCallback (clearTimeout m h) env (snd (snd t)))"

section \<open>Notions used to state the properties\<close>

subsection \<open>Sequences of vote recordings\<close>

datatype VoteCall = DurationCall string GameDuration | PlayerCall string string

fun apply_call :: "GameState \<Rightarrow> VoteCall \<Rightarrow> GameState" where
  "apply_call s (DurationCall v d) = recordDurationVote s v d"
| "apply_call s (PlayerCall v t) = recordVote s v t"

fun run_calls :: "GameState \<Rightarrow> VoteCall list \<Rightarrow> GameState" where
  "run_calls s [] = s"
| "run_calls s (c # cs) = run_calls (apply_call s c) cs"

text \<open>The duration, and the accusation, that a voter submitted last in a sequence.\<close>

fun last_duration :: "VoteCall list \<Rightarrow> string \<Rightarrow> GameDuration option" where
  "last_duration [] v = None"
| "last_duration (c # cs) v =
     (case last_duration cs v of
        Some d \<Rightarrow> Some d
      | None \<Rightarrow> (case c of DurationCall v' d \<Rightarrow> if v' = v then Some d else None
                          | PlayerCall v' t \<Rightarrow> None))"

fun last_accusation :: "VoteCall list \<Rightarrow> string \<Rightarrow> string option" where
  "last_accusation [] v = None"
| "last_accusation (c # cs) v =
     (case last_accusation cs v of
        Some t \<Rightarrow> Some t
      | None \<Rightarrow> (case c of PlayerCall v' t \<Rightarrow> if v' = v then Some t else None
                          | DurationCall v' d \<Rightarrow> None))"

definition duration_of :: "GameState \<Rightarrow> string \<Rightarrow> GameDuration option" where
  "duration_of s v = map_of (map (\<lambda>x. (voterInboxId x, duration x)) (durationVotes s)) v"

definition one_vote_per_voter :: "GameState \<Rightarrow> bool" where
  "one_vote_per_voter s =
     (distinct (map voterInboxId (durationVotes s)) \<and> distinct (map_keys (votes s)))"

subsection \<open>Plurality with the earliest option winning a tie\<close>

text \<open>
  \<open>earliest_top xs w\<close>: in the sequence \<open>xs\<close> of chosen options, \<open>w\<close> has the
  highest count, and every option chosen before the first choice of \<open>w\<close> has a
  strictly smaller count.
\<close>

definition earliest_top :: "'a list \<Rightarrow> 'a \<Rightarrow> bool" where
  "earliest_top xs w =
     (w \<in> set xs \<and>
      (\<forall>e \<in> set xs. count_list xs e \<le> count_list xs w) \<and>
      (\<forall>e \<in> set (takeWhile (\<lambda>x. x \<noteq> w) xs). count_list xs e < count_list xs w))"

text \<open>The options of a sequence in the order of their first occurrence.\<close>

fun firsts :: "'a list \<Rightarrow> 'a list" where
  "firsts [] = []"
| "firsts (x # xs) = x # filter (\<lambda>y. y \<noteq> x) (firsts xs)"

definition max_shape :: "('a, nat) jsmap \<Rightarrow> bool" where
  "max_shape es =
     ((\<forall>e \<in> set es. snd e = 0) \<and> max_entry es = (0, None) \<or>
      (\<exists>pre k m post. es = pre @ (k, m) # post \<and> max_entry es = (m, Some k) \<and> 0 < m \<and>
         (\<forall>e \<in> set pre. snd e < m) \<and> (\<forall>e \<in> set post. snd e \<le> m)))"

text \<open>
  The votes that stand after a sequence of submissions, one per voter, each holding the
  voter's last choice. \<open>durations_by_arrival\<close> and \<open>accusations_by_arrival\<close> list them
  in the order in which the standing votes were submitted;
  \<open>accusations_by_first_vote\<close> lists them in the order in which the voters submitted
  their first accusation.
\<close>

fun durations_by_arrival :: "VoteCall list \<Rightarrow> (string \<times> GameDuration) list" where
  "durations_by_arrival [] = []"
| "durations_by_arrival (DurationCall v d # cs) =
     (if last_duration cs v = None then [(v, d)] else []) @ durations_by_arrival cs"
| "durations_by_arrival (PlayerCall v t # cs) = durations_by_arrival cs"

fun accusations_by_arrival :: "VoteCall list \<Rightarrow> (string \<times> string) list" where
  "accusations_by_arrival [] = []"
| "accusations_by_arrival (PlayerCall v t # cs) =
     (if last_accusation cs v = None then [(v, t)] else []) @ accusations_by_arrival cs"
| "accusations_by_arrival (DurationCall v d # cs) = accusations_by_arrival cs"

fun accusations_by_first_vote :: "VoteCall list \<Rightarrow> (string \<times> string) list" where
  "accusations_by_first_vote [] = []"
| "accusations_by_first_vote (PlayerCall v t # cs) =
     (v, case last_accusation cs v of None \<Rightarrow> t | Some t' \<Rightarrow> t')
     # filter (\<lambda>e. fst e \<noteq> v) (accusations_by_first_vote cs)"
| "accusations_by_first_vote (DurationCall v d # cs) = accusations_by_first_vote cs"

subsection \<open>The imposter invariant\<close>

datatype SessionOp =
    OpAddPlayer string string
  | OpSetImposter string
  | OpRecordDurationVote string GameDuration
  | OpRecordVote string string
  | OpReset

fun apply_op :: "GameState \<Rightarrow> SessionOp \<Rightarrow> GameState" where
  "apply_op s (OpAddPlayer i a) = addPlayer s i a"
| "apply_op s (OpSetImposter i) = setImposter s i"
| "apply_op s (OpRecordDurationVote v d) = recordDurationVote s v d"
| "apply_op s (OpRecordVote v t) = recordVote s v t"
| "apply_op s OpReset = resetGameState s"

fun run_ops :: "GameState \<Rightarrow> SessionOp list \<Rightarrow> GameState" where
  "run_ops s [] = s"
| "run_ops s (x # xs) = run_ops (apply_op s x) xs"

text \<open>
  The invariant of the claim: when the imposter identifier is set, it is a key of the
  players, that player is flagged, and no player under another key is flagged.
\<close>

definition imposter_invariant :: "GameState \<Rightarrow> bool" where
  "imposter_invariant s =
     (case imposterInboxId s of
        None \<Rightarrow> True
      | Some i \<Rightarrow>
          (case map_get (players s) i of None \<Rightarrow> False | Some p \<Rightarrow> isImposter p) \<and>
          (\<forall>e \<in> set (players s). fst e \<noteq> i \<longrightarrow> \<not> isImposter (snd e)))"

text \<open>
  The invariant alone is not inductive; with it go the facts that a key stands once in the
  players and that nobody is flagged while no imposter is set.
\<close>

definition session_wf :: "GameState \<Rightarrow> bool" where
  "session_wf s =
     (distinct (map_keys (players s)) \<and>
      (imposterInboxId s = None \<longrightarrow> (\<forall>e \<in> set (players s). \<not> isImposter (snd e))) \<and>
      imposter_invariant s)"

text \<open>
  \<^verbatim>\<open>setImposter\<close> is used the way the orchestrator uses it: on a session with no
  imposter yet (or again on the same player).
\<close>

fun op_allowed :: "GameState \<Rightarrow> SessionOp \<Rightarrow> bool" where
  "op_allowed s (OpSetImposter i) = (imposterInboxId s = None \<or> imposterInboxId s = Some i)"
| "op_allowed s x = True"

fun ops_allowed :: "GameState \<Rightarrow> SessionOp list \<Rightarrow> bool" where
  "ops_allowed s [] = True"
| "ops_allowed s (x # xs) = (op_allowed s x \<and> ops_allowed (apply_op s x) xs)"

subsection \<open>A game used as the running example\<close>

text \<open>
  A group of the bot and three players: the game is started, one duration vote arrives,
  the deadlines fire one after the other, the players accuse, and the voting deadline ends
  the game. \<open>example_ghost\<close> is the variant in which the only accusation names an
  identifier that is no player.
\<close>

definition example_env :: Env where
  "example_env =
     \<lparr> now = 1000, members = [''bot'', ''p1'', ''p2'', ''p3''], botInboxId = ''bot'',
       identifierOf = (\<lambda>i. None), dmDelivered = (\<lambda>i. True),
       randImposter = 1, randWord = 0, randSpeaker = 2, resolveName = (\<lambda>a. a) \<rparr>"

definition example_env_two :: Env where
  "example_env_two = example_env\<lparr>members := [''bot'', ''p1'']\<rparr>"

text \<open>The manager that a fired timeout leaves behind, whether its callback threw or not.\<close>

definition after_fire :: "(JsError \<times> Manager) + Manager \<Rightarrow> Manager" where
  "after_fire r = (case r of Inl em \<Rightarrow> snd em | Inr m \<Rightarrow> m)"

definition example_started :: Manager where
  "example_started = startGame newManager example_env ''g''"

definition example_voted :: Manager where
  "example_voted = handleDurationVote example_started ''g'' ''p1'' D5"

definition example_assigning :: Manager where
  "example_assigning = after_fire (fire example_voted example_env 0)"

definition example_discussion :: Manager where
  "example_discussion = after_fire (fire example_assigning example_env 1)"

definition example_voting :: Manager where
  "example_voting = after_fire (fire example_discussion example_env 2)"

definition example_accused :: Manager where
  "example_accused =
     handlePlayerVote (handlePlayerVote (handlePlayerVote example_voting
        ''g'' ''p1'' ''p2'') ''g'' ''p2'' ''p2'') ''g'' ''p3'' ''p1''"


definition example_ended :: Manager where
  "example_ended = after_fire (fire example_accused example_env 3)"



text \<open>The variant of the example in which the only accusation names the empty identifier.\<close>

definition example_empty_votee :: Manager where
  "example_empty_votee = handlePlayerVote example_voting ''g'' ''p3'' []"

subsection \<open>Runs of the orchestrator\<close>

text \<open>
  The events that reach the manager: the four commands, a timeout that fires, and the
  shutdown. A run applies a sequence of events to the manager; when a callback throws,
  the run goes on with the manager the callback left.
\<close>

datatype Event =
    EvStart string Env
  | EvDurationVote string string GameDuration
  | EvPlayerVote string string string
  | EvCancel string
  | EvFire nat Env
  | EvShutdown

fun step :: "Manager \<Rightarrow> Event \<Rightarrow> Manager" where
  "step m (EvStart g env) = startGame m env g"
| "step m (EvDurationVote g v d) = handleDurationVote m g v d"
| "step m (EvPlayerVote g v t) = handlePlayerVote m g v t"
| "step m (EvCancel g) = cancelGame m g"
| "step m (EvFire h env) = after_fire (fire m env h)"
| "step m EvShutdown = shutdown m"

fun run_events :: "Manager \<Rightarrow> Event list \<Rightarrow> Manager" where
  "run_events m [] = m"
| "run_events m (e # es) = run_events (step m e) es"

text \<open>
  What holds of every session of a manager along a run: the session is well formed, and
  while the duration vote is open it has no player and no imposter.
\<close>

definition session_good :: "GameState \<Rightarrow> bool" where
  "session_good s =
     (session_wf s \<and> (status s = VotingDuration \<longrightarrow> players s = [] \<and> imposterInboxId s = None))"

definition manager_good :: "Manager \<Rightarrow> bool" where
  "manager_good m = (\<forall>g. session_good (session m g))"

section \<open>Properties of the session state\<close>

text \<open>
  C6. For every state and every voted-out identifier, \<^verbatim>\<open>determineWinner\<close> returns
  \<^verbatim>\<open>group\<close> exactly when the identifier is the state's imposter identifier, and
  \<^verbatim>\<open>imposter\<close> in every other case (also when no imposter is set).
\<close>

theorem determineWinner_group_iff:
  "(determineWinner s v = GroupWins) = (imposterInboxId s = Some v) \<and>
   (determineWinner s v = ImposterWins) = (imposterInboxId s \<noteq> Some v)"
  by (auto simp: determineWinner_def)

text \<open>
  C9. \<^verbatim>\<open>resetGameState\<close> clears every optional field of the session (the selected
  duration, the imposter identifier, the secret word, the voted-out identifier, the
  winner, the three timestamps and the current speaker), empties the players, the votes
  and the duration votes, and sets the status to idle. The group identifier stays.
\<close>

theorem resetGameState_clears:
  "selectedDuration (resetGameState s) = None \<and>
   imposterInboxId (resetGameState s) = None \<and>
   secretWord (resetGameState s) = None \<and>
   votedOutInboxId (resetGameState s) = None \<and>
   winner (resetGameState s) = None \<and>
   startedAt (resetGameState s) = None \<and>
   discussionEndTime (resetGameState s) = None \<and>
   votingStartedAt (resetGameState s) = None \<and>
   currentSpeakerInboxId (resetGameState s) = None \<and>
   players (resetGameState s) = [] \<and>
   votes (resetGameState s) = [] \<and>
   durationVotes (resetGameState s) = [] \<and>
   status (resetGameState s) = Idle \<and>
   groupId (resetGameState s) = groupId s"
  by (simp add: resetGameState_def)

subsection \<open>Recording votes\<close>

lemma map_of_map_set: "map_of (map_set k v m) = (map_of m)(k \<mapsto> v)"
  by (induction m) auto

lemma keys_map_set:
  "map fst (map_set k v m) = (if k \<in> set (map fst m) then map fst m else map fst m @ [k])"
  by (induction m) auto

lemma distinct_map_set: "distinct (map fst m) \<Longrightarrow> distinct (map fst (map_set k v m))"
  by (simp add: keys_map_set)

lemma votes_recordVote: "votes (recordVote s v t) = map_set v t (votes s)"
  by (simp add: recordVote_def Let_def split: option.split)

lemma durationVotes_recordVote: "durationVotes (recordVote s v t) = durationVotes s"
  by (simp add: recordVote_def Let_def split: option.split)

lemma one_vote_apply_call: "one_vote_per_voter s \<Longrightarrow> one_vote_per_voter (apply_call s c)"
  by (cases c)
     (auto simp: one_vote_per_voter_def recordDurationVote_def votes_recordVote
        durationVotes_recordVote map_keys_def distinct_map_set distinct_map_filter)

lemma map_of_filter_voter:
  "map_of (map (\<lambda>x. (voterInboxId x, duration x)) (filter (\<lambda>x. voterInboxId x \<noteq> v) xs)) w =
     (if w = v then None else map_of (map (\<lambda>x. (voterInboxId x, duration x)) xs) w)"
  by (induction xs) auto

lemma duration_of_apply_call:
  "duration_of (apply_call s c) v =
     (case c of DurationCall v' d \<Rightarrow> if v' = v then Some d else duration_of s v
              | PlayerCall v' t \<Rightarrow> duration_of s v)"
  by (cases c)
     (auto simp: duration_of_def recordDurationVote_def durationVotes_recordVote
        map_of_append map_of_filter_voter map_add_def split: option.splits)

lemma votes_apply_call:
  "map_get (votes (apply_call s c)) v =
     (case c of PlayerCall v' t \<Rightarrow> if v' = v then Some t else map_get (votes s) v
              | DurationCall v' d \<Rightarrow> map_get (votes s) v)"
  by (cases c) (auto simp: map_get_def votes_recordVote map_of_map_set recordDurationVote_def)

lemma one_vote_run_calls: "one_vote_per_voter s \<Longrightarrow> one_vote_per_voter (run_calls s cs)"
  by (induction cs arbitrary: s) (simp_all add: one_vote_apply_call)

lemma duration_of_run_calls:
  "duration_of (run_calls s cs) v =
     (case last_duration cs v of Some d \<Rightarrow> Some d | None \<Rightarrow> duration_of s v)"
  by (induction cs arbitrary: s)
     (auto simp: duration_of_apply_call split: option.splits VoteCall.splits)

lemma votes_run_calls:
  "map_get (votes (run_calls s cs)) v =
     (case last_accusation cs v of Some t \<Rightarrow> Some t | None \<Rightarrow> map_get (votes s) v)"
  by (induction cs arbitrary: s)
     (auto simp: votes_apply_call split: option.splits VoteCall.splits)


text \<open>
  C7. For every sequence of \<^verbatim>\<open>recordDurationVote\<close> and \<^verbatim>\<open>recordVote\<close> calls
  on a session that holds at most one vote per voter, the session still holds at most one
  duration vote and at most one accusation per voter, and what it holds for a voter is
  the voter's most recent duration, respectively accusation (the last write wins); a
  voter who did not vote in the sequence keeps what the session held before.
\<close>

theorem votes_last_write_wins:
  assumes "one_vote_per_voter s"
  shows "one_vote_per_voter (run_calls s cs) \<and>
         duration_of (run_calls s cs) v =
           (case last_duration cs v of Some d \<Rightarrow> Some d | None \<Rightarrow> duration_of s v) \<and>
         map_get (votes (run_calls s cs)) v =
           (case last_accusation cs v of Some t \<Rightarrow> Some t | None \<Rightarrow> map_get (votes s) v)"
  using assms by (simp add: one_vote_run_calls duration_of_run_calls votes_run_calls)

theorem votes_last_write_wins_witness:
  "one_vote_per_voter (createGameState ''g'') \<and>
   one_vote_per_voter (run_calls (createGameState ''g'')
      [DurationCall ''a'' D5, PlayerCall ''a'' ''b'', DurationCall ''a'' D10, PlayerCall ''a'' ''c'']) \<and>
   duration_of (run_calls (createGameState ''g'')
      [DurationCall ''a'' D5, PlayerCall ''a'' ''b'', DurationCall ''a'' D10, PlayerCall ''a'' ''c'']) ''a''
     = Some D10 \<and>
   map_get (votes (run_calls (createGameState ''g'')
      [DurationCall ''a'' D5, PlayerCall ''a'' ''b'', DurationCall ''a'' D10, PlayerCall ''a'' ''c''])) ''a''
     = Some ''c''"
proof -
  have h: "one_vote_per_voter (createGameState ''g'')"
    by (simp add: one_vote_per_voter_def createGameState_def map_keys_def)
  show ?thesis
    using h votes_last_write_wins [OF h, of
      "[DurationCall ''a'' D5, PlayerCall ''a'' ''b'', DurationCall ''a'' D10, PlayerCall ''a'' ''c'']" "''a''"]
    by simp
qed

subsection \<open>The tallies\<close>

lemma set_firsts: "set (firsts xs) = set xs"
  by (induction xs) auto

lemma distinct_firsts: "distinct (firsts xs)"
  by (induction xs) (auto simp: set_firsts)

lemma firsts_snoc:
  "firsts (xs @ [x]) = (if x \<in> set xs then firsts xs else firsts xs @ [x])"
  by (induction xs) (auto simp: set_firsts)

lemma map_set_tabulate:
  "distinct ks \<Longrightarrow>
   map_set x v (map (\<lambda>k. (k, f k)) ks) =
     (if x \<in> set ks then map (\<lambda>k. (k, if k = x then v else f k)) ks
      else map (\<lambda>k. (k, f k)) ks @ [(x, v)])"
  by (induction ks) auto

lemma map_of_tabulate: "map_of (map (\<lambda>k. (k, f k)) ks) x = (if x \<in> set ks then Some (f x) else None)"
  by (induction ks) auto

lemma count_all_snoc: "count_all (xs @ [x]) = count_step (count_all xs) x"
  by (simp add: count_all_def)

lemma count_list_snoc:
  "count_list (xs @ [x]) k = (if k = x then count_list xs k + 1 else count_list xs k)"
  by (induction xs) auto

lemma count_all_eq: "count_all xs = map (\<lambda>k. (k, count_list xs k)) (firsts xs)"
proof (induction xs rule: rev_induct)
  case Nil
  show ?case by (simp add: count_all_def)
next
  case (snoc x xs)
  have c: "(case map_get (count_all xs) x of None \<Rightarrow> 0 | Some n \<Rightarrow> n) = count_list xs x"
    by (simp add: snoc map_get_def map_of_tabulate set_firsts count_list_0_iff)
  have step: "count_all (xs @ [x]) =
      map_set x (count_list xs x + 1) (map (\<lambda>k. (k, count_list xs k)) (firsts xs))"
    unfolding count_all_snoc count_step_def c by (simp add: snoc)
  show ?case
  proof (cases "x \<in> set xs")
    case True
    have "map_set x (count_list xs x + 1) (map (\<lambda>k. (k, count_list xs k)) (firsts xs)) =
          map (\<lambda>k. (k, if k = x then count_list xs x + 1 else count_list xs k)) (firsts xs)"
      using True by (simp add: map_set_tabulate distinct_firsts set_firsts)
    also have "\<dots> = map (\<lambda>k. (k, count_list (xs @ [x]) k)) (firsts xs)"
      by (rule map_cong) (simp_all add: count_list_snoc del: count_list_append)
    finally have "count_all (xs @ [x]) = map (\<lambda>k. (k, count_list (xs @ [x]) k)) (firsts xs)"
      using step by simp
    then show ?thesis using True by (simp only: firsts_snoc if_True)
  next
    case False
    have a: "map_set x (count_list xs x + 1) (map (\<lambda>k. (k, count_list xs k)) (firsts xs)) =
          map (\<lambda>k. (k, count_list xs k)) (firsts xs) @ [(x, count_list xs x + 1)]"
      using False by (simp add: map_set_tabulate distinct_firsts set_firsts)
    have b: "map (\<lambda>k. (k, count_list xs k)) (firsts xs) =
          map (\<lambda>k. (k, count_list (xs @ [x]) k)) (firsts xs)"
    proof (rule map_cong)
      fix k assume "k \<in> set (firsts xs)"
      then have "k \<noteq> x" using False by (auto simp: set_firsts)
      then show "(k, count_list xs k) = (k, count_list (xs @ [x]) k)"
        by (simp only: count_list_snoc if_False)
    qed simp
    have c': "(x, count_list xs x + 1) = (x, count_list (xs @ [x]) x)"
      by simp
    have "count_all (xs @ [x]) =
        map (\<lambda>k. (k, count_list (xs @ [x]) k)) (firsts xs) @ [(x, count_list (xs @ [x]) x)]"
      using step a b c' by (simp only:)
    also have "\<dots> = map (\<lambda>k. (k, count_list (xs @ [x]) k)) (firsts xs @ [x])"
      by simp
    finally show ?thesis using False by (simp only: firsts_snoc if_False)
  qed
qed

lemma max_entry_snoc: "max_entry (es @ [e]) = max_step (max_entry es) e"
  by (simp add: max_entry_def)

lemma max_shapeI:
  "es = pre @ (k, m) # post \<Longrightarrow> max_entry es = (m, Some k) \<Longrightarrow> 0 < m \<Longrightarrow>
   \<forall>e \<in> set pre. snd e < m \<Longrightarrow> \<forall>e \<in> set post. snd e \<le> m \<Longrightarrow> max_shape es"
  unfolding max_shape_def by blast

lemma max_entry_shape: "max_shape es"
proof (induction es rule: rev_induct)
  case Nil
  show ?case by (simp add: max_shape_def max_entry_def)
next
  case (snoc e es)
  from snoc have
    "(\<forall>e \<in> set es. snd e = 0) \<and> max_entry es = (0, None) \<or>
     (\<exists>pre k m post. es = pre @ (k, m) # post \<and> max_entry es = (m, Some k) \<and> 0 < m \<and>
         (\<forall>e \<in> set pre. snd e < m) \<and> (\<forall>e \<in> set post. snd e \<le> m))"
    unfolding max_shape_def .
  then show ?case
  proof (elim disjE conjE exE)
    assume z: "\<forall>e \<in> set es. snd e = 0" and r: "max_entry es = (0, None)"
    show ?thesis
    proof (cases "snd e = 0")
      case True
      with z r show ?thesis by (simp add: max_shape_def max_entry_snoc max_step_def)
    next
      case False
      have 1: "es @ [e] = es @ (fst e, snd e) # []" by simp
      have 2: "max_entry (es @ [e]) = (snd e, Some (fst e))"
        using False r by (simp add: max_entry_snoc max_step_def)
      have 3: "\<forall>x \<in> set es. snd x < snd e" using z False by simp
      have 4: "0 < snd e" using False by simp
      show ?thesis by (rule max_shapeI [OF 1 2 4 3]) simp
    qed
  next
    fix pre k m post
    assume d: "es = pre @ (k, m) # post" and r: "max_entry es = (m, Some k)" and p: "0 < m"
      and b: "\<forall>e \<in> set pre. snd e < m" and a: "\<forall>e \<in> set post. snd e \<le> m"
    show ?thesis
    proof (cases "snd e > m")
      case True
      have 1: "es @ [e] = es @ (fst e, snd e) # []" by simp
      have 2: "max_entry (es @ [e]) = (snd e, Some (fst e))"
        using True r by (simp add: max_entry_snoc max_step_def)
      have 3: "\<forall>x \<in> set es. snd x < snd e"
      proof
        fix x assume "x \<in> set es"
        then have "x \<in> set pre \<or> x = (k, m) \<or> x \<in> set post" unfolding d by auto
        then have "snd x \<le> m" using a b by force
        then show "snd x < snd e" using True by simp
      qed
      have 4: "0 < snd e" using True by simp
      show ?thesis by (rule max_shapeI [OF 1 2 4 3]) simp
    next
      case False
      have 1: "es @ [e] = pre @ (k, m) # (post @ [e])" using d by simp
      have 2: "max_entry (es @ [e]) = (m, Some k)"
        using False r by (simp add: max_entry_snoc max_step_def)
      have 3: "\<forall>x \<in> set (post @ [e]). snd x \<le> m" using a False by auto
      show ?thesis by (rule max_shapeI [OF 1 2 p b 3])
    qed
  qed
qed

lemma takeWhile_filter_neq:
  "x \<noteq> k \<Longrightarrow> takeWhile (\<lambda>y. y \<noteq> k) (filter (\<lambda>y. y \<noteq> x) ys) = filter (\<lambda>y. y \<noteq> x) (takeWhile (\<lambda>y. y \<noteq> k) ys)"
  by (induction ys) auto

lemma takeWhile_firsts:
  "takeWhile (\<lambda>y. y \<noteq> k) (firsts xs) = firsts (takeWhile (\<lambda>y. y \<noteq> k) xs)"
  by (induction xs) (auto simp: takeWhile_filter_neq)

lemma takeWhile_upto_key:
  "k \<notin> set ps \<Longrightarrow> takeWhile (\<lambda>y. y \<noteq> k) (ps @ k # qs) = ps"
  by (induction ps) auto

lemma one_before_other:
  "a \<in> set xs \<Longrightarrow> b \<in> set xs \<Longrightarrow> a \<noteq> b \<Longrightarrow>
   a \<in> set (takeWhile (\<lambda>x. x \<noteq> b) xs) \<or> b \<in> set (takeWhile (\<lambda>x. x \<noteq> a) xs)"
  by (induction xs) auto

lemma max_entry_count_all:
  assumes "xs \<noteq> []"
  shows "\<exists>w. max_entry (count_all xs) = (count_list xs w, Some w) \<and> earliest_top xs w"
proof -
  define es where "es = count_all xs"
  have mem: "\<And>e c. ((e, c) \<in> set es) = (e \<in> set xs \<and> c = count_list xs e)"
    unfolding es_def count_all_eq by (auto simp: set_firsts)
  have fsts: "map fst es = firsts xs"
    unfolding es_def count_all_eq by (simp add: comp_def)
  obtain x where x: "x \<in> set xs" using assms by (cases xs) auto
  then have "(x, count_list xs x) \<in> set es" by (simp add: mem)
  moreover have "count_list xs x \<noteq> 0" using x by (simp add: count_list_0_iff)
  ultimately have "\<not> (\<forall>e \<in> set es. snd e = 0)" by force
  with max_entry_shape [of es] have
    "\<exists>pre k m post. es = pre @ (k, m) # post \<and> max_entry es = (m, Some k) \<and> 0 < m \<and>
      (\<forall>e \<in> set pre. snd e < m) \<and> (\<forall>e \<in> set post. snd e \<le> m)"
    unfolding max_shape_def by blast
  then obtain pre k m post where
    d: "es = pre @ (k, m) # post" and r: "max_entry es = (m, Some k)"
    and b: "\<forall>e \<in> set pre. snd e < m" and a: "\<forall>e \<in> set post. snd e \<le> m"
    by blast
  have sets: "set es = set pre \<union> insert (k, m) (set post)"
    unfolding d by simp
  have "(k, m) \<in> set es" unfolding sets by simp
  then have k: "k \<in> set xs" and m: "m = count_list xs k"
    by (simp_all add: mem)
  have keys: "firsts xs = map fst pre @ k # map fst post"
    unfolding fsts [symmetric] d by simp
  have le: "\<forall>e \<in> set xs. count_list xs e \<le> count_list xs k"
  proof
    fix e assume "e \<in> set xs"
    then have "(e, count_list xs e) \<in> set es" by (simp add: mem)
    then consider "(e, count_list xs e) \<in> set pre" | "(e, count_list xs e) = (k, m)"
      | "(e, count_list xs e) \<in> set post" unfolding sets by blast
    then show "count_list xs e \<le> count_list xs k"
    proof cases
      case 1
      with b have "snd (e, count_list xs e) < m" by blast
      then show ?thesis using m by simp
    next
      case 2
      then show ?thesis using m by simp
    next
      case 3
      with a have "snd (e, count_list xs e) \<le> m" by blast
      then show ?thesis using m by simp
    qed
  qed
  have "distinct (map fst pre @ k # map fst post)"
    using distinct_firsts [of xs] unfolding keys .
  then have kpre: "k \<notin> set (map fst pre)" by simp
  have "takeWhile (\<lambda>y. y \<noteq> k) (firsts xs) = map fst pre"
    unfolding keys using kpre by (rule takeWhile_upto_key)
  then have "set (firsts (takeWhile (\<lambda>y. y \<noteq> k) xs)) = set (map fst pre)"
    by (simp only: takeWhile_firsts)
  then have tw: "set (takeWhile (\<lambda>y. y \<noteq> k) xs) = set (map fst pre)"
    by (simp only: set_firsts)
  have lt: "\<forall>e \<in> set (takeWhile (\<lambda>y. y \<noteq> k) xs). count_list xs e < count_list xs k"
  proof
    fix e assume "e \<in> set (takeWhile (\<lambda>y. y \<noteq> k) xs)"
    then have "e \<in> fst ` set pre" unfolding tw by simp
    then obtain c where c: "(e, c) \<in> set pre" by force
    then have "(e, c) \<in> set es" unfolding sets by simp
    then have "c = count_list xs e" by (simp add: mem)
    moreover from c b have "snd (e, c) < m" by blast
    ultimately show "count_list xs e < count_list xs k" using m by simp
  qed
  have "earliest_top xs k" unfolding earliest_top_def using k le lt by blast
  moreover have "max_entry (count_all xs) = (count_list xs k, Some k)"
    using r unfolding es_def m .
  ultimately show ?thesis by blast
qed

lemma earliest_top_unique:
  assumes "earliest_top xs a" and "earliest_top xs b"
  shows "a = b"
proof (rule ccontr)
  assume ne: "a \<noteq> b"
  have ina: "a \<in> set xs" and inb: "b \<in> set xs"
    using assms by (simp_all add: earliest_top_def)
  have "count_list xs a \<le> count_list xs b" using assms(2) ina by (simp add: earliest_top_def)
  moreover have "count_list xs b \<le> count_list xs a" using assms(1) inb by (simp add: earliest_top_def)
  ultimately have eq: "count_list xs a = count_list xs b" by simp
  from ina inb ne
  have "a \<in> set (takeWhile (\<lambda>x. x \<noteq> b) xs) \<or> b \<in> set (takeWhile (\<lambda>x. x \<noteq> a) xs)"
    by (rule one_before_other)
  then show False
  proof
    assume "a \<in> set (takeWhile (\<lambda>x. x \<noteq> b) xs)"
    then have "count_list xs a < count_list xs b" using assms(2) by (simp add: earliest_top_def)
    then show False using eq by simp
  next
    assume "b \<in> set (takeWhile (\<lambda>x. x \<noteq> a) xs)"
    then have "count_list xs b < count_list xs a" using assms(1) by (simp add: earliest_top_def)
    then show False using eq by simp
  qed
qed

lemma last_duration_Cons_None:
  "(last_duration (c # cs) w = None) =
     (last_duration cs w = None \<and> (case c of DurationCall v d \<Rightarrow> v \<noteq> w | PlayerCall v t \<Rightarrow> True))"
  by (cases c) (auto split: option.splits)

lemma durationVotes_run_calls:
  "map (\<lambda>x. (voterInboxId x, duration x)) (durationVotes (run_calls s cs)) =
     filter (\<lambda>e. last_duration cs (fst e) = None)
       (map (\<lambda>x. (voterInboxId x, duration x)) (durationVotes s))
     @ durations_by_arrival cs"
proof (induction cs arbitrary: s)
  case Nil
  show ?case by simp
next
  case (Cons c cs)
  show ?case
  proof (cases c)
    case (DurationCall v d)
    have "map (\<lambda>x. (voterInboxId x, duration x)) (durationVotes (apply_call s c)) =
          filter (\<lambda>e. fst e \<noteq> v) (map (\<lambda>x. (voterInboxId x, duration x)) (durationVotes s))
          @ [(v, d)]"
      by (simp add: DurationCall recordDurationVote_def filter_map comp_def)
    then show ?thesis
      using Cons [of "apply_call s c"]
      by (auto simp: DurationCall last_duration_Cons_None
          simp del: last_duration.simps intro: filter_cong)
  next
    case (PlayerCall v t)
    then show ?thesis
      using Cons [of "apply_call s c"]
      by (simp add: durationVotes_recordVote last_duration_Cons_None
          del: last_duration.simps)
  qed
qed

lemma map_set_present:
  "distinct (map fst m) \<Longrightarrow> k \<in> fst ` set m \<Longrightarrow>
   map_set k v m = map (\<lambda>e. if fst e = k then (k, v) else e) m"
  by (induction m) (auto intro!: map_idI [symmetric] simp: rev_image_eqI)

lemma map_set_absent: "k \<notin> fst ` set m \<Longrightarrow> map_set k v m = m @ [(k, v)]"
  by (induction m) auto

lemma votes_run_calls_order:
  "distinct (map fst (votes s)) \<Longrightarrow>
   votes (run_calls s cs) =
     map (\<lambda>e. (fst e, case last_accusation cs (fst e) of None \<Rightarrow> snd e | Some t \<Rightarrow> t)) (votes s)
     @ filter (\<lambda>e. fst e \<notin> fst ` set (votes s)) (accusations_by_first_vote cs)"
proof (induction cs arbitrary: s)
  case Nil
  show ?case by (simp add: map_idI)
next
  case (Cons c cs)
  show ?case
  proof (cases c)
    case (DurationCall v d)
    have "votes (apply_call s c) = votes s" by (simp add: DurationCall recordDurationVote_def)
    then show ?thesis
      using Cons.IH [of "apply_call s c"] Cons.prems
      by (auto simp: DurationCall split: option.splits)
  next
    case (PlayerCall v t)
    have v': "votes (apply_call s c) = map_set v t (votes s)"
      by (simp add: PlayerCall votes_recordVote)
    have d': "distinct (map fst (votes (apply_call s c)))"
      unfolding v' using Cons.prems by (rule distinct_map_set)
    note ih = Cons.IH [OF d', unfolded v']
    show ?thesis
    proof (cases "v \<in> fst ` set (votes s)")
      case True
      have ms: "map_set v t (votes s) = map (\<lambda>e. if fst e = v then (v, t) else e) (votes s)"
        using Cons.prems True by (rule map_set_present)
      have keys: "fst ` set (map_set v t (votes s)) = fst ` set (votes s)"
        using True by (metis keys_map_set set_map)
      have a: "map (\<lambda>e. (fst e, case last_accusation cs (fst e) of None \<Rightarrow> snd e | Some t \<Rightarrow> t))
                 (map_set v t (votes s)) =
               map (\<lambda>e. (fst e, case last_accusation (c # cs) (fst e) of None \<Rightarrow> snd e | Some t \<Rightarrow> t))
                 (votes s)"
        unfolding ms by (auto simp: PlayerCall split: option.splits)
      have b: "filter (\<lambda>e. fst e \<notin> fst ` set (votes s)) (accusations_by_first_vote (c # cs)) =
               filter (\<lambda>e. fst e \<notin> fst ` set (votes s)) (accusations_by_first_vote cs)"
        using True by (auto simp: PlayerCall intro: filter_cong)
      show ?thesis
        unfolding run_calls.simps ih keys a b ..
    next
      case False
      have ms: "map_set v t (votes s) = votes s @ [(v, t)]"
        using False by (rule map_set_absent)
      have a: "map (\<lambda>e. (fst e, case last_accusation cs (fst e) of None \<Rightarrow> snd e | Some t \<Rightarrow> t))
                 (votes s) =
               map (\<lambda>e. (fst e, case last_accusation (c # cs) (fst e) of None \<Rightarrow> snd e | Some t \<Rightarrow> t))
                 (votes s)"
        using False by (intro map_cong) (auto simp: PlayerCall split: option.splits)
      have b: "filter (\<lambda>e. fst e \<notin> fst ` set (votes s @ [(v, t)])) (accusations_by_first_vote cs) =
               filter (\<lambda>e. fst e \<notin> fst ` set (votes s))
                 (filter (\<lambda>e. fst e \<noteq> v) (accusations_by_first_vote cs))"
        by (auto intro: filter_cong)
      show ?thesis
        unfolding run_calls.simps ih ms using False a b
        by (simp add: PlayerCall split: option.splits)
    qed
  qed
qed

lemma winning_duration_none: "durationVotes s = [] \<Longrightarrow> calculateWinningDuration s = None"
  by (simp add: calculateWinningDuration_def)

lemma winning_duration_some:
  assumes "durationVotes s \<noteq> []"
  shows "\<exists>d. calculateWinningDuration s = Some d \<and> earliest_top (map duration (durationVotes s)) d"
proof -
  have "map duration (durationVotes s) \<noteq> []" using assms by simp
  from max_entry_count_all [OF this] obtain w where
    "max_entry (count_all (map duration (durationVotes s))) =
       (count_list (map duration (durationVotes s)) w, Some w)"
    and "earliest_top (map duration (durationVotes s)) w" by blast
  then show ?thesis using assms by (simp add: calculateWinningDuration_def)
qed

lemma vote_results_some:
  assumes "votes s \<noteq> []"
  shows "\<exists>t. earliest_top (map_values (votes s)) t \<and>
             (t \<noteq> [] \<longrightarrow>
              calculateVoteResults s = Some (t, count_list (map_values (votes s)) t)) \<and>
             (t = [] \<longrightarrow> calculateVoteResults s = None)"
proof -
  have "map_values (votes s) \<noteq> []" using assms by (simp add: map_values_def)
  from max_entry_count_all [OF this] obtain w where
    "max_entry (count_all (map_values (votes s))) =
       (count_list (map_values (votes s)) w, Some w)"
    and "earliest_top (map_values (votes s)) w" by blast
  then show ?thesis using assms by (auto simp: calculateVoteResults_def)
qed


lemma example_575:
  "a \<noteq> b \<Longrightarrow> a \<noteq> c \<Longrightarrow> b \<noteq> c \<Longrightarrow>
   calculateWinningDuration
     (run_calls (createGameState g) [DurationCall a D5, DurationCall b D7, DurationCall c D5])
     = Some D5"
  by (simp add: calculateWinningDuration_def recordDurationVote_def createGameState_def
      count_all_def count_step_def max_entry_def max_step_def map_get_def)

lemma example_75:
  "a \<noteq> b \<Longrightarrow>
   calculateWinningDuration
     (run_calls (createGameState g) [DurationCall a D7, DurationCall b D5]) = Some D7"
  by (simp add: calculateWinningDuration_def recordDurationVote_def createGameState_def
      count_all_def count_step_def max_entry_def max_step_def map_get_def)

text \<open>
  C1 (as amended). Both tallies return an option with the highest count, and among the
  options with the highest count the one that comes first in the order in which the
  tally walks the recorded votes. \<^verbatim>\<open>calculateWinningDuration\<close> walks
  \<^verbatim>\<open>durationVotes\<close>, which holds the standing duration votes in the order in which
  they arrived (a voter who votes again moves to the end). \<^verbatim>\<open>calculateVoteResults\<close>
  walks the \<^verbatim>\<open>votes\<close> map, which holds the standing accusations in the order in
  which the voters cast their first accusation (a voter who changes the accusation keeps
  the place); it returns the top identifier with its count when that identifier is not
  the empty string. With no duration vote there is no winning duration. For duration
  votes 5, 7, 5 from three distinct voters the winner is 5; for 7, 5 from two voters the
  winner is 7.
\<close>

theorem plurality_earliest_in_iteration_order:
  "(durationVotes s = [] \<longrightarrow> calculateWinningDuration s = None) \<and>
   (durationVotes s \<noteq> [] \<longrightarrow>
      (\<exists>d. calculateWinningDuration s = Some d \<and>
           earliest_top (map duration (durationVotes s)) d)) \<and>
   (votes s \<noteq> [] \<longrightarrow>
      (\<exists>t. earliest_top (map_values (votes s)) t \<and>
           (t \<noteq> [] \<longrightarrow>
            calculateVoteResults s = Some (t, count_list (map_values (votes s)) t)))) \<and>
   map (\<lambda>x. (voterInboxId x, duration x)) (durationVotes (run_calls (createGameState g) cs))
     = durations_by_arrival cs \<and>
   votes (run_calls (createGameState g) cs) = accusations_by_first_vote cs \<and>
   (a \<noteq> b \<and> a \<noteq> c \<and> b \<noteq> c \<longrightarrow>
      calculateWinningDuration
        (run_calls (createGameState g) [DurationCall a D5, DurationCall b D7, DurationCall c D5])
        = Some D5) \<and>
   (a \<noteq> b \<longrightarrow>
      calculateWinningDuration
        (run_calls (createGameState g) [DurationCall a D7, DurationCall b D5]) = Some D7)"
proof -
  have 1: "durationVotes s = [] \<longrightarrow> calculateWinningDuration s = None"
    by (simp add: winning_duration_none)
  have 2: "durationVotes s \<noteq> [] \<longrightarrow>
      (\<exists>d. calculateWinningDuration s = Some d \<and>
           earliest_top (map duration (durationVotes s)) d)"
    using winning_duration_some by blast
  have 3: "votes s \<noteq> [] \<longrightarrow>
      (\<exists>t. earliest_top (map_values (votes s)) t \<and>
           (t \<noteq> [] \<longrightarrow>
            calculateVoteResults s = Some (t, count_list (map_values (votes s)) t)))"
    using vote_results_some [of s] by blast
  have 4: "map (\<lambda>x. (voterInboxId x, duration x))
             (durationVotes (run_calls (createGameState g) cs)) = durations_by_arrival cs"
    by (simp add: durationVotes_run_calls createGameState_def)
  have 5: "votes (run_calls (createGameState g) cs) = accusations_by_first_vote cs"
    by (simp add: votes_run_calls_order createGameState_def)
  show ?thesis
    using 1 2 3 4 5 example_575 [of a b c g] example_75 [of a b g] by blast
qed

theorem plurality_earliest_in_iteration_order_witness:
  "durationVotes (createGameState ''g'') = [] \<and>
   calculateWinningDuration (createGameState ''g'') = None \<and>
   durationVotes (run_calls (createGameState ''g'')
      [DurationCall ''A'' D5, DurationCall ''B'' D7, DurationCall ''C'' D5,
       PlayerCall ''A'' ''X'', PlayerCall ''B'' ''Y'', PlayerCall ''A'' ''Z'']) \<noteq> [] \<and>
   votes (run_calls (createGameState ''g'')
      [DurationCall ''A'' D5, DurationCall ''B'' D7, DurationCall ''C'' D5,
       PlayerCall ''A'' ''X'', PlayerCall ''B'' ''Y'', PlayerCall ''A'' ''Z'']) \<noteq> [] \<and>
   votes (run_calls (createGameState ''g'')
      [DurationCall ''A'' D5, DurationCall ''B'' D7, DurationCall ''C'' D5,
       PlayerCall ''A'' ''X'', PlayerCall ''B'' ''Y'', PlayerCall ''A'' ''Z''])
     = [(''A'', ''Z''), (''B'', ''Y'')] \<and>
   ''A'' \<noteq> ''B'' \<and> ''A'' \<noteq> ''C'' \<and> ''B'' \<noteq> ''C'' \<and>
   calculateWinningDuration (run_calls (createGameState ''g'')
      [DurationCall ''A'' D5, DurationCall ''B'' D7, DurationCall ''C'' D5]) = Some D5 \<and>
   calculateWinningDuration (run_calls (createGameState ''g'')
      [DurationCall ''A'' D7, DurationCall ''B'' D5]) = Some D7"
  using plurality_earliest_in_iteration_order
          [of "createGameState ''g''" "''g''" "[]" "''A''" "''B''" "''C''"]
        plurality_earliest_in_iteration_order
          [of "run_calls (createGameState ''g'')
                 [DurationCall ''A'' D5, DurationCall ''B'' D7, DurationCall ''C'' D5,
                  PlayerCall ''A'' ''X'', PlayerCall ''B'' ''Y'', PlayerCall ''A'' ''Z'']"
              "''g''"
              "[DurationCall ''A'' D5, DurationCall ''B'' D7, DurationCall ''C'' D5,
                PlayerCall ''A'' ''X'', PlayerCall ''B'' ''Y'', PlayerCall ''A'' ''Z'']"
              "''A''" "''B''" "''C''"]
  by (simp add: createGameState_def recordDurationVote_def recordVote_def map_get_def)

text \<open>
  The claim as stated fails where a voter changes an accusation. A accuses X, then B
  accuses Y, then A changes to Z: the standing votes are B's for Y (second submission)
  and A's for Z (third submission), Y and Z tie with one vote each, and Y is the option
  whose vote arrived earliest; \<^verbatim>\<open>calculateVoteResults\<close> returns Z. The duration
  tally on the same pattern of submissions (A 5, B 7, A 10) returns B's option, 7.
\<close>

theorem tie_break_revote_counterexample:
  "calculateVoteResults (run_calls (createGameState ''g'')
      [PlayerCall ''A'' ''X'', PlayerCall ''B'' ''Y'', PlayerCall ''A'' ''Z'']) = Some (''Z'', 1) \<and>
   accusations_by_arrival
      [PlayerCall ''A'' ''X'', PlayerCall ''B'' ''Y'', PlayerCall ''A'' ''Z'']
     = [(''B'', ''Y''), (''A'', ''Z'')] \<and>
   earliest_top (map snd (accusations_by_arrival
      [PlayerCall ''A'' ''X'', PlayerCall ''B'' ''Y'', PlayerCall ''A'' ''Z''])) ''Y'' \<and>
   \<not> earliest_top (map snd (accusations_by_arrival
      [PlayerCall ''A'' ''X'', PlayerCall ''B'' ''Y'', PlayerCall ''A'' ''Z''])) ''Z'' \<and>
   calculateWinningDuration (run_calls (createGameState ''g'')
      [DurationCall ''A'' D5, DurationCall ''B'' D7, DurationCall ''A'' D10]) = Some D7"
  by (simp add: calculateVoteResults_def calculateWinningDuration_def recordVote_def
      recordDurationVote_def createGameState_def map_values_def count_all_def count_step_def
      max_entry_def max_step_def map_get_def earliest_top_def)

subsection \<open>The imposter invariant\<close>

lemma set_map_set:
  "distinct (map fst m) \<Longrightarrow> set (map_set k v m) = insert (k, v) {e \<in> set m. fst e \<noteq> k}"
  by (induction m) (auto simp: rev_image_eqI)

lemma imposter_invariant_alt:
  "imposter_invariant s =
     (\<forall>i. imposterInboxId s = Some i \<longrightarrow>
        (\<exists>p. map_of (players s) i = Some p \<and> isImposter p) \<and>
        (\<forall>e \<in> set (players s). fst e \<noteq> i \<longrightarrow> \<not> isImposter (snd e)))"
  by (auto simp: imposter_invariant_def map_get_def split: option.splits)

lemma session_wf_cong:
  "players s' = players s \<Longrightarrow> imposterInboxId s' = imposterInboxId s \<Longrightarrow>
   session_wf s' = session_wf s"
  by (simp add: session_wf_def imposter_invariant_alt)

lemma session_wfI:
  "distinct (map fst (players s)) \<Longrightarrow>
   (imposterInboxId s = None \<Longrightarrow> \<forall>e \<in> set (players s). \<not> isImposter (snd e)) \<Longrightarrow>
   (\<And>i. imposterInboxId s = Some i \<Longrightarrow>
      (\<exists>p. map_of (players s) i = Some p \<and> isImposter p) \<and>
      (\<forall>e \<in> set (players s). fst e \<noteq> i \<longrightarrow> \<not> isImposter (snd e))) \<Longrightarrow>
   session_wf s"
  unfolding session_wf_def imposter_invariant_alt map_keys_def by blast

lemma session_wfD:
  assumes "session_wf s"
  shows "distinct (map fst (players s))"
    and "imposterInboxId s = None \<Longrightarrow> e \<in> set (players s) \<Longrightarrow> \<not> isImposter (snd e)"
    and "imposterInboxId s = Some i \<Longrightarrow> \<exists>p. map_of (players s) i = Some p \<and> isImposter p"
    and "imposterInboxId s = Some i \<Longrightarrow> e \<in> set (players s) \<Longrightarrow> fst e \<noteq> i \<Longrightarrow>
         \<not> isImposter (snd e)"
  using assms unfolding session_wf_def imposter_invariant_alt map_keys_def by blast+

lemma session_wf_addPlayer:
  assumes wf: "session_wf s"
  shows "session_wf (addPlayer s i a)"
proof (cases "map_has (players s) i")
  case True
  then show ?thesis using wf by (simp add: addPlayer_def)
next
  case False
  define f where "f = \<lparr> inboxId = i, address = a, isImposter = False, hasVoted = False,
                         votedFor = None \<rparr>"
  have nf: "\<not> isImposter f" by (simp add: f_def)
  have absent: "map_of (players s) i = None" using False by (simp add: map_has_def)
  then have notin: "i \<notin> fst ` set (players s)" by (simp add: map_of_eq_None_iff)
  have pl: "players (addPlayer s i a) = players s @ [(i, f)]"
    using False notin by (simp add: addPlayer_def f_def map_set_absent)
  have im: "imposterInboxId (addPlayer s i a) = imposterInboxId s"
    by (simp add: addPlayer_def)
  show ?thesis
  proof (rule session_wfI)
    show "distinct (map fst (players (addPlayer s i a)))"
      unfolding pl using session_wfD(1) [OF wf] notin by simp
  next
    assume "imposterInboxId (addPlayer s i a) = None"
    then have n: "imposterInboxId s = None" by (simp add: im)
    show "\<forall>e \<in> set (players (addPlayer s i a)). \<not> isImposter (snd e)"
      unfolding pl using session_wfD(2) [OF wf n] nf by auto
  next
    fix j assume "imposterInboxId (addPlayer s i a) = Some j"
    then have j: "imposterInboxId s = Some j" by (simp add: im)
    from session_wfD(3) [OF wf j] obtain p where p: "map_of (players s) j = Some p" "isImposter p"
      by blast
    have "map_of (players s @ [(i, f)]) j = Some p" using p(1) by (simp add: map_add_Some_iff)
    moreover have "\<forall>e \<in> set (players s @ [(i, f)]). fst e \<noteq> j \<longrightarrow> \<not> isImposter (snd e)"
      using session_wfD(4) [OF wf j] nf by auto
    ultimately show "(\<exists>p. map_of (players (addPlayer s i a)) j = Some p \<and> isImposter p) \<and>
       (\<forall>e \<in> set (players (addPlayer s i a)). fst e \<noteq> j \<longrightarrow> \<not> isImposter (snd e))"
      unfolding pl using p(2) by blast
  qed
qed

lemma session_wf_setImposter:
  assumes wf: "session_wf s" and pre: "imposterInboxId s = None \<or> imposterInboxId s = Some i"
  shows "session_wf (setImposter s i)"
proof (cases "map_get (players s) i")
  case None
  then show ?thesis using wf by (simp add: setImposter_def)
next
  case (Some p)
  have d: "distinct (map fst (players s))" by (rule session_wfD(1) [OF wf])
  have others: "\<And>e. e \<in> set (players s) \<Longrightarrow> fst e \<noteq> i \<Longrightarrow> \<not> isImposter (snd e)"
    using pre session_wfD(2) [OF wf] session_wfD(4) [OF wf] by blast
  have pl: "players (setImposter s i) = map_set i (p\<lparr>isImposter := True\<rparr>) (players s)"
    and im: "imposterInboxId (setImposter s i) = Some i"
    using Some by (simp_all add: setImposter_def)
  show ?thesis
  proof (rule session_wfI)
    show "distinct (map fst (players (setImposter s i)))"
      unfolding pl using d by (rule distinct_map_set)
  next
    assume "imposterInboxId (setImposter s i) = None"
    then show "\<forall>e \<in> set (players (setImposter s i)). \<not> isImposter (snd e)"
      by (simp add: im)
  next
    fix j assume "imposterInboxId (setImposter s i) = Some j"
    then have j: "j = i" by (simp add: im)
    have "map_of (players (setImposter s i)) i = Some (p\<lparr>isImposter := True\<rparr>)"
      unfolding pl by (simp add: map_of_map_set)
    moreover have "\<forall>e \<in> set (players (setImposter s i)). fst e \<noteq> i \<longrightarrow> \<not> isImposter (snd e)"
      unfolding pl set_map_set [OF d] using others by auto
    ultimately show "(\<exists>p. map_of (players (setImposter s i)) j = Some p \<and> isImposter p) \<and>
       (\<forall>e \<in> set (players (setImposter s i)). fst e \<noteq> j \<longrightarrow> \<not> isImposter (snd e))"
      unfolding j by simp
  qed
qed

lemma session_wf_recordVote:
  assumes wf: "session_wf s"
  shows "session_wf (recordVote s v t)"
proof (cases "map_get (players s) v")
  case None
  have "session_wf (recordVote s v t) = session_wf s"
    by (rule session_wf_cong) (simp_all add: recordVote_def None)
  then show ?thesis using wf by simp
next
  case (Some p)
  define q where "q = p\<lparr>hasVoted := True, votedFor := Some t\<rparr>"
  have fl: "isImposter q = isImposter p" by (simp add: q_def)
  have d: "distinct (map fst (players s))" by (rule session_wfD(1) [OF wf])
  have mp: "map_of (players s) v = Some p" using Some by (simp add: map_get_def)
  then have mem: "(v, p) \<in> set (players s)" by (rule map_of_SomeD)
  have pl: "players (recordVote s v t) = map_set v q (players s)"
    and im: "imposterInboxId (recordVote s v t) = imposterInboxId s"
    using Some by (simp_all add: recordVote_def q_def)
  have st: "set (players (recordVote s v t)) = insert (v, q) {e \<in> set (players s). fst e \<noteq> v}"
    unfolding pl by (rule set_map_set [OF d])
  show ?thesis
  proof (rule session_wfI)
    show "distinct (map fst (players (recordVote s v t)))"
      unfolding pl using d by (rule distinct_map_set)
  next
    assume "imposterInboxId (recordVote s v t) = None"
    then have n: "imposterInboxId s = None" by (simp add: im)
    have "\<not> isImposter p" using session_wfD(2) [OF wf n mem] by simp
    then show "\<forall>e \<in> set (players (recordVote s v t)). \<not> isImposter (snd e)"
      unfolding st using session_wfD(2) [OF wf n] fl by auto
  next
    fix j assume "imposterInboxId (recordVote s v t) = Some j"
    then have j: "imposterInboxId s = Some j" by (simp add: im)
    from session_wfD(3) [OF wf j] obtain r where r: "map_of (players s) j = Some r" "isImposter r"
      by blast
    have a: "\<exists>p'. map_of (players (recordVote s v t)) j = Some p' \<and> isImposter p'"
    proof (cases "j = v")
      case True
      then have "r = p" using r(1) mp by simp
      then show ?thesis unfolding pl using True r(2) fl by (simp add: map_of_map_set)
    next
      case False
      then show ?thesis unfolding pl using r by (simp add: map_of_map_set)
    qed
    have b: "\<forall>e \<in> set (players (recordVote s v t)). fst e \<noteq> j \<longrightarrow> \<not> isImposter (snd e)"
    proof (intro ballI impI)
      fix e assume e: "e \<in> set (players (recordVote s v t))" and ne: "fst e \<noteq> j"
      from e have "e = (v, q) \<or> e \<in> set (players s)" unfolding st by blast
      then show "\<not> isImposter (snd e)"
      proof
        assume ev: "e = (v, q)"
        then have "v \<noteq> j" using ne by simp
        then have "\<not> isImposter p" using session_wfD(4) [OF wf j mem] by simp
        then show ?thesis using ev fl by simp
      next
        assume "e \<in> set (players s)"
        then show ?thesis using session_wfD(4) [OF wf j] ne by blast
      qed
    qed
    show "(\<exists>p. map_of (players (recordVote s v t)) j = Some p \<and> isImposter p) \<and>
       (\<forall>e \<in> set (players (recordVote s v t)). fst e \<noteq> j \<longrightarrow> \<not> isImposter (snd e))"
      using a b by blast
  qed
qed

lemma session_wf_apply_op: "session_wf s \<Longrightarrow> op_allowed s x \<Longrightarrow> session_wf (apply_op s x)"
proof (cases x)
  case (OpAddPlayer i a)
  assume "session_wf s"
  then show ?thesis by (simp add: OpAddPlayer session_wf_addPlayer)
next
  case (OpSetImposter i)
  assume "session_wf s" "op_allowed s x"
  then show ?thesis by (simp add: OpSetImposter session_wf_setImposter)
next
  case (OpRecordDurationVote v d)
  assume "session_wf s"
  moreover have "session_wf (recordDurationVote s v d) = session_wf s"
    by (rule session_wf_cong) (simp_all add: recordDurationVote_def)
  ultimately show ?thesis by (simp add: OpRecordDurationVote)
next
  case (OpRecordVote v t)
  assume "session_wf s"
  then show ?thesis by (simp add: OpRecordVote session_wf_recordVote)
next
  case OpReset
  show ?thesis
    by (simp add: OpReset resetGameState_def session_wf_def imposter_invariant_def
        map_keys_def)
qed

lemma session_wf_run_ops: "session_wf s \<Longrightarrow> ops_allowed s xs \<Longrightarrow> session_wf (run_ops s xs)"
  by (induction xs arbitrary: s) (simp_all add: session_wf_apply_op)

lemma session_wf_create: "session_wf (createGameState g)"
  by (simp add: session_wf_def createGameState_def imposter_invariant_def map_keys_def)

section \<open>Properties of the orchestrator\<close>

subsection \<open>Reading the manager\<close>

lemma getGameState_eq: "getGameState m g = (session m g, ensured m g)"
  by (simp add: session_def ensured_def)

lemma session_eq:
  "session m g = (case map_get (games m) g of Some s \<Rightarrow> s | None \<Rightarrow> createGameState g)"
  by (simp add: session_def getGameState_def split: option.splits)

lemma map_of_map_delete: "map_of (map_delete k m) k = None"
  by (induction m) (auto simp: map_delete_def)

lemma ensured_fields [simp]:
  "timers (ensured m g) = timers m"
  "pending (ensured m g) = pending m"
  "nextHandle (ensured m g) = nextHandle m"
  "outbox (ensured m g) = outbox m"
  by (simp_all add: ensured_def getGameState_def split: option.splits)

lemma session_ensured [simp]: "session (ensured m g) g' = session m g'"
  by (auto simp: session_eq ensured_def getGameState_def map_get_def map_of_map_set
      split: option.splits)

lemma session_store [simp]: "session (store m g s) g' = (if g' = g then s else session m g')"
  by (auto simp: session_eq store_def map_get_def map_of_map_set split: option.splits)

lemma store_fields [simp]:
  "timers (store m g s) = timers m"
  "pending (store m g s) = pending m"
  "nextHandle (store m g s) = nextHandle m"
  "outbox (store m g s) = outbox m"
  by (simp_all add: store_def)

lemma send_fields [simp]:
  "session (send m g msg) g' = session m g'"
  "timers (send m g msg) = timers m"
  "pending (send m g msg) = pending m"
  "nextHandle (send m g msg) = nextHandle m"
  "outbox (send m g msg) = outbox m @ [ToGroup g msg]"
  by (simp_all add: send_def session_eq)

lemma setTimer_fields [simp]:
  "session (setTimer m g cb d) g' = session m g'"
  "map_get (timers (setTimer m g cb d)) g = Some (nextHandle m)"
  "pending (setTimer m g cb d) =
     filter (\<lambda>t. Some (fst t) \<noteq> map_get (timers m) g) (pending m) @ [(nextHandle m, d, cb)]"
  "nextHandle (setTimer m g cb d) = nextHandle m + 1"
  "outbox (setTimer m g cb d) = outbox m"
  by (auto simp: setTimer_def setTimeout_def clearTimeout_def session_eq map_get_def
      map_of_map_set Let_def split: option.splits intro: filter_cong)

lemma setTimeout_fields [simp]:
  "session (snd (setTimeout m cb d)) g' = session m g'"
  "timers (snd (setTimeout m cb d)) = timers m"
  "pending (snd (setTimeout m cb d)) = pending m @ [(nextHandle m, d, cb)]"
  "nextHandle (snd (setTimeout m cb d)) = nextHandle m + 1"
  "outbox (snd (setTimeout m cb d)) = outbox m"
  by (simp_all add: setTimeout_def session_eq)

lemma clearTimer_fields [simp]:
  "session (clearTimer m g) g' = session m g'"
  "map_get (timers (clearTimer m g)) g = None"
  "pending (clearTimer m g) = filter (\<lambda>t. Some (fst t) \<noteq> map_get (timers m) g) (pending m)"
  "nextHandle (clearTimer m g) = nextHandle m"
  "outbox (clearTimer m g) = outbox m"
  by (auto simp: clearTimer_def clearTimeout_def session_eq map_get_def
      map_of_map_delete split: option.splits intro: filter_cong)


lemma startGame_active:
  "isGameActive (session m g) \<Longrightarrow>
   startGame m env g = send (ensured m g) g MsgAlreadyInProgress"
  by (simp add: startGame_def getGameState_eq)

lemma startGame_few:
  "\<not> isGameActive (session m g) \<Longrightarrow> length (members env) < 3 \<Longrightarrow>
   startGame m env g = send (ensured m g) g MsgNeedThreePlayers"
  by (simp add: startGame_def getGameState_eq)

lemma startGame_ok:
  "\<not> isGameActive (session m g) \<Longrightarrow> 3 \<le> length (members env) \<Longrightarrow>
   startGame m env g =
     setTimer
       (send (send (store (ensured m g) g
                      ((resetGameState (session m g))\<lparr>status := VotingDuration\<rparr>))
                g MsgGameStarting)
          g (MsgDurationPoll (now env)))
       g (CbFinalizeDurationVote g) 60000"
  by (simp add: startGame_def getGameState_eq Let_def)

lemma fresh_voting_session:
  "(resetGameState s)\<lparr>status := VotingDuration\<rparr> =
     \<lparr> groupId = groupId s, status = VotingDuration, durationVotes = [],
       selectedDuration = None, players = [], imposterInboxId = None, secretWord = None,
       startedAt = None, discussionEndTime = None, currentSpeakerInboxId = None,
       votingStartedAt = None, votes = [], votedOutInboxId = None, winner = None \<rparr>"
  by (simp add: resetGameState_def)

subsection \<open>The running example, step by step\<close>

lemmas manager_defs =
  startGame_def handleDurationVote_def finalizeDurationVote_def assignRoles_def
  selectRandomSpeaker_def startDiscussionPhase_def endDiscussionPhase_def startVotingPhase_def
  handlePlayerVote_def finalizeVoting_def cancelGame_def fire_def runCallback_def
  getGameState_def store_def send_def setTimer_def setTimeout_def clearTimer_def
  clearTimeout_def map_delete_def map_get_def map_has_def map_values_def

lemmas state_defs =
  isGameActive_def createGameState_def resetGameState_def recordDurationVote_def
  recordVote_def addPlayer_def setImposter_def calculateWinningDuration_def
  calculateVoteResults_def determineWinner_def count_all_def count_step_def max_entry_def
  max_step_def addMembers_def addressOf_def randomIndex_def getRandomWord_def
  resultsMessage_def playerLabel_def

lemma WORD_LIST_first: "WORD_LIST ! 0 = ''Pizza''" "length WORD_LIST = 120"
  by (simp_all add: WORD_LIST_def)

lemma example_started_eq: "example_started =
  \<lparr> games = [(''g'', (createGameState ''g'')\<lparr>status := VotingDuration\<rparr>)],
    timers = [(''g'', 0)], pending = [(0, 60000, CbFinalizeDurationVote ''g'')],
    nextHandle = 1,
    outbox = [ToGroup ''g'' MsgGameStarting, ToGroup ''g'' (MsgDurationPoll 1000)] \<rparr>"
  by (simp add: example_started_def example_env_def newManager_def manager_defs state_defs
      Let_def)

lemma example_voted_eq: "example_voted =
  \<lparr> games = [(''g'', (createGameState ''g'')
               \<lparr>status := VotingDuration,
                durationVotes := [\<lparr>voterInboxId = ''p1'', duration = D5\<rparr>]\<rparr>)],
    timers = [(''g'', 0)], pending = [(0, 60000, CbFinalizeDurationVote ''g'')],
    nextHandle = 1,
    outbox = [ToGroup ''g'' MsgGameStarting, ToGroup ''g'' (MsgDurationPoll 1000)] \<rparr>"
  by (simp add: example_voted_def example_started_eq manager_defs state_defs Let_def)

lemma example_assigning_eq: "example_assigning =
  \<lparr> games = [(''g'', (createGameState ''g'')
               \<lparr>status := AssigningRoles,
                durationVotes := [\<lparr>voterInboxId = ''p1'', duration = D5\<rparr>],
                selectedDuration := Some D5,
                players := [(''p1'', \<lparr>inboxId = ''p1'', address = ''p1'', isImposter = False, hasVoted = False,
                      votedFor = None\<rparr>),
             (''p2'', \<lparr>inboxId = ''p2'', address = ''p2'', isImposter = True, hasVoted = False,
                      votedFor = None\<rparr>),
             (''p3'', \<lparr>inboxId = ''p3'', address = ''p3'', isImposter = False, hasVoted = False,
                      votedFor = None\<rparr>)],
                imposterInboxId := Some ''p2'', secretWord := Some ''Pizza''\<rparr>)],
    timers = [(''g'', 0)], pending = [(1, 2000, CbSelectRandomSpeaker ''g'')],
    nextHandle = 2,
    outbox = [ToGroup ''g'' MsgGameStarting, ToGroup ''g'' (MsgDurationPoll 1000),
              ToGroup ''g'' (MsgDurationSelected D5),
              ToPlayer ''p1'' (DmSecretWord ''Pizza''), ToPlayer ''p2'' DmImposter,
              ToPlayer ''p3'' (DmSecretWord ''Pizza''),
              ToGroup ''g'' (MsgRolesAssigned 3 3)] \<rparr>"
  by (simp add: example_assigning_def example_voted_eq example_env_def after_fire_def
      manager_defs state_defs WORD_LIST_first Let_def)

lemma example_discussion_eq: "example_discussion =
  \<lparr> games = [(''g'', (createGameState ''g'')
               \<lparr>status := Discussion,
                durationVotes := [\<lparr>voterInboxId = ''p1'', duration = D5\<rparr>],
                selectedDuration := Some D5,
                players := [(''p1'', \<lparr>inboxId = ''p1'', address = ''p1'', isImposter = False, hasVoted = False,
                      votedFor = None\<rparr>),
             (''p2'', \<lparr>inboxId = ''p2'', address = ''p2'', isImposter = True, hasVoted = False,
                      votedFor = None\<rparr>),
             (''p3'', \<lparr>inboxId = ''p3'', address = ''p3'', isImposter = False, hasVoted = False,
                      votedFor = None\<rparr>)],
                imposterInboxId := Some ''p2'', secretWord := Some ''Pizza'',
                startedAt := Some 1000, discussionEndTime := Some 301000,
                currentSpeakerInboxId := Some ''p3''\<rparr>)],
    timers = [(''g'', 2)], pending = [(2, 300000, CbEndDiscussion ''g'')],
    nextHandle = 3,
    outbox = [ToGroup ''g'' MsgGameStarting, ToGroup ''g'' (MsgDurationPoll 1000),
              ToGroup ''g'' (MsgDurationSelected D5),
              ToPlayer ''p1'' (DmSecretWord ''Pizza''), ToPlayer ''p2'' DmImposter,
              ToPlayer ''p3'' (DmSecretWord ''Pizza''),
              ToGroup ''g'' (MsgRolesAssigned 3 3),
              ToGroup ''g'' (MsgSpeaker ''p3'' (Some D5))] \<rparr>"
  by (simp add: example_discussion_def example_assigning_eq example_env_def after_fire_def
      manager_defs state_defs Let_def)

lemma example_voting_eq: "example_voting =
  \<lparr> games = [(''g'', (createGameState ''g'')
               \<lparr>status := Voting,
                durationVotes := [\<lparr>voterInboxId = ''p1'', duration = D5\<rparr>],
                selectedDuration := Some D5,
                players := [(''p1'', \<lparr>inboxId = ''p1'', address = ''p1'', isImposter = False, hasVoted = False,
                      votedFor = None\<rparr>),
             (''p2'', \<lparr>inboxId = ''p2'', address = ''p2'', isImposter = True, hasVoted = False,
                      votedFor = None\<rparr>),
             (''p3'', \<lparr>inboxId = ''p3'', address = ''p3'', isImposter = False, hasVoted = False,
                      votedFor = None\<rparr>)],
                imposterInboxId := Some ''p2'', secretWord := Some ''Pizza'',
                startedAt := Some 1000, discussionEndTime := Some 301000,
                currentSpeakerInboxId := Some ''p3'', votingStartedAt := Some 1000\<rparr>)],
    timers = [(''g'', 3)], pending = [(3, 60000, CbFinalizeVoting ''g'')],
    nextHandle = 4,
    outbox = [ToGroup ''g'' MsgGameStarting, ToGroup ''g'' (MsgDurationPoll 1000),
              ToGroup ''g'' (MsgDurationSelected D5),
              ToPlayer ''p1'' (DmSecretWord ''Pizza''), ToPlayer ''p2'' DmImposter,
              ToPlayer ''p3'' (DmSecretWord ''Pizza''),
              ToGroup ''g'' (MsgRolesAssigned 3 3),
              ToGroup ''g'' (MsgSpeaker ''p3'' (Some D5)),
              ToGroup ''g'' MsgTimesUp,
              ToGroup ''g'' (MsgVotingPoll 1000 [(''p1'', ''p1''), (''p2'', ''p2''), (''p3'', ''p3'')])] \<rparr>"
  by (simp add: example_voting_def example_discussion_eq example_env_def after_fire_def
      manager_defs state_defs Let_def)

lemma example_accused_eq: "example_accused =
  \<lparr> games = [(''g'', (createGameState ''g'')
               \<lparr>status := Voting,
                durationVotes := [\<lparr>voterInboxId = ''p1'', duration = D5\<rparr>],
                selectedDuration := Some D5,
                players := [(''p1'', \<lparr>inboxId = ''p1'', address = ''p1'', isImposter = False, hasVoted = True,
                      votedFor = Some ''p2''\<rparr>),
             (''p2'', \<lparr>inboxId = ''p2'', address = ''p2'', isImposter = True, hasVoted = True,
                      votedFor = Some ''p2''\<rparr>),
             (''p3'', \<lparr>inboxId = ''p3'', address = ''p3'', isImposter = False, hasVoted = True,
                      votedFor = Some ''p1''\<rparr>)],
                imposterInboxId := Some ''p2'', secretWord := Some ''Pizza'',
                startedAt := Some 1000, discussionEndTime := Some 301000,
                currentSpeakerInboxId := Some ''p3'', votingStartedAt := Some 1000,
                votes := [(''p1'', ''p2''), (''p2'', ''p2''), (''p3'', ''p1'')]\<rparr>)],
    timers = [(''g'', 3)], pending = [(3, 60000, CbFinalizeVoting ''g'')],
    nextHandle = 4,
    outbox = [ToGroup ''g'' MsgGameStarting, ToGroup ''g'' (MsgDurationPoll 1000),
              ToGroup ''g'' (MsgDurationSelected D5),
              ToPlayer ''p1'' (DmSecretWord ''Pizza''), ToPlayer ''p2'' DmImposter,
              ToPlayer ''p3'' (DmSecretWord ''Pizza''),
              ToGroup ''g'' (MsgRolesAssigned 3 3),
              ToGroup ''g'' (MsgSpeaker ''p3'' (Some D5)),
              ToGroup ''g'' MsgTimesUp,
              ToGroup ''g'' (MsgVotingPoll 1000 [(''p1'', ''p1''), (''p2'', ''p2''), (''p3'', ''p3'')])] \<rparr>"
  by (simp add: example_accused_def example_voting_eq manager_defs state_defs Let_def)


lemma example_ended_eq: "example_ended =
  \<lparr> games = [(''g'', (createGameState ''g'')
               \<lparr>status := Ended,
                durationVotes := [\<lparr>voterInboxId = ''p1'', duration = D5\<rparr>],
                selectedDuration := Some D5,
                players := [(''p1'', \<lparr>inboxId = ''p1'', address = ''p1'', isImposter = False, hasVoted = True,
                      votedFor = Some ''p2''\<rparr>),
             (''p2'', \<lparr>inboxId = ''p2'', address = ''p2'', isImposter = True, hasVoted = True,
                      votedFor = Some ''p2''\<rparr>),
             (''p3'', \<lparr>inboxId = ''p3'', address = ''p3'', isImposter = False, hasVoted = True,
                      votedFor = Some ''p1''\<rparr>)],
                imposterInboxId := Some ''p2'', secretWord := Some ''Pizza'',
                startedAt := Some 1000, discussionEndTime := Some 301000,
                currentSpeakerInboxId := Some ''p3'', votingStartedAt := Some 1000,
                votes := [(''p1'', ''p2''), (''p2'', ''p2''), (''p3'', ''p1'')],
                votedOutInboxId := Some ''p2'', winner := Some GroupWins\<rparr>)],
    timers = [(''g'', 3)], pending = [(4, 5000, CbResetState ''g'')],
    nextHandle = 5,
    outbox = [ToGroup ''g'' MsgGameStarting, ToGroup ''g'' (MsgDurationPoll 1000),
              ToGroup ''g'' (MsgDurationSelected D5),
              ToPlayer ''p1'' (DmSecretWord ''Pizza''), ToPlayer ''p2'' DmImposter,
              ToPlayer ''p3'' (DmSecretWord ''Pizza''),
              ToGroup ''g'' (MsgRolesAssigned 3 3),
              ToGroup ''g'' (MsgSpeaker ''p3'' (Some D5)),
              ToGroup ''g'' MsgTimesUp,
              ToGroup ''g'' (MsgVotingPoll 1000 [(''p1'', ''p1''), (''p2'', ''p2''), (''p3'', ''p3'')]),
              ToGroup ''g'' (MsgResults ''p2'' 2 True ''p2'' (Some ''Pizza'') GroupWins
                 [(''p1'', ''p2''), (''p2'', ''p2''), (''p3'', ''p1'')])] \<rparr>"
  by (simp add: example_ended_def example_accused_eq example_env_def after_fire_def
      manager_defs state_defs Let_def)

subsection \<open>Starting a game\<close>

text \<open>
  C3 (as amended). \<^verbatim>\<open>startGame\<close> on a session that is active (status neither idle
  nor ended) only reports that a game is already in progress. On an inactive session of a
  group with fewer than 3 members it only reports that there are not enough players: the
  session, and so its status (idle, or ended when the previous game has just finished),
  stays as it was. Otherwise the session becomes a fresh one in status
  \<^verbatim>\<open>voting_duration\<close> with every other field cleared, the start message and the
  duration poll are sent, and a deadline of 60000 ms that finalizes the duration vote is
  armed and tracked for the group, in place of the group's previously tracked timeout.
\<close>

theorem startGame_cases:
  "(isGameActive (session m g) \<longrightarrow>
      session (startGame m env g) g = session m g \<and>
      pending (startGame m env g) = pending m \<and>
      timers (startGame m env g) = timers m \<and>
      outbox (startGame m env g) = outbox m @ [ToGroup g MsgAlreadyInProgress]) \<and>
   (\<not> isGameActive (session m g) \<and> length (members env) < 3 \<longrightarrow>
      session (startGame m env g) g = session m g \<and>
      pending (startGame m env g) = pending m \<and>
      timers (startGame m env g) = timers m \<and>
      outbox (startGame m env g) = outbox m @ [ToGroup g MsgNeedThreePlayers]) \<and>
   (\<not> isGameActive (session m g) \<and> 3 \<le> length (members env) \<longrightarrow>
      session (startGame m env g) g =
        \<lparr> groupId = groupId (session m g), status = VotingDuration, durationVotes = [],
          selectedDuration = None, players = [], imposterInboxId = None, secretWord = None,
          startedAt = None, discussionEndTime = None, currentSpeakerInboxId = None,
          votingStartedAt = None, votes = [], votedOutInboxId = None, winner = None \<rparr> \<and>
      map_get (timers (startGame m env g)) g = Some (nextHandle m) \<and>
      pending (startGame m env g) =
        filter (\<lambda>t. Some (fst t) \<noteq> map_get (timers m) g) (pending m)
        @ [(nextHandle m, 60000, CbFinalizeDurationVote g)] \<and>
      outbox (startGame m env g) =
        outbox m @ [ToGroup g MsgGameStarting, ToGroup g (MsgDurationPoll (now env))])"
proof (intro conjI impI)
  assume a: "isGameActive (session m g)"
  show "session (startGame m env g) g = session m g"
    "pending (startGame m env g) = pending m"
    "timers (startGame m env g) = timers m"
    "outbox (startGame m env g) = outbox m @ [ToGroup g MsgAlreadyInProgress]"
    by (simp_all add: startGame_active [OF a])
next
  assume "\<not> isGameActive (session m g) \<and> length (members env) < 3"
  then have e: "startGame m env g = send (ensured m g) g MsgNeedThreePlayers"
    by (simp add: startGame_few)
  show "session (startGame m env g) g = session m g"
    "pending (startGame m env g) = pending m"
    "timers (startGame m env g) = timers m"
    "outbox (startGame m env g) = outbox m @ [ToGroup g MsgNeedThreePlayers]"
    by (simp_all add: e)
next
  assume "\<not> isGameActive (session m g) \<and> 3 \<le> length (members env)"
  then have e: "startGame m env g =
     setTimer
       (send (send (store (ensured m g) g
                      ((resetGameState (session m g))\<lparr>status := VotingDuration\<rparr>))
                g MsgGameStarting)
          g (MsgDurationPoll (now env)))
       g (CbFinalizeDurationVote g) 60000"
    by (simp add: startGame_ok)
  show "session (startGame m env g) g =
        \<lparr> groupId = groupId (session m g), status = VotingDuration, durationVotes = [],
          selectedDuration = None, players = [], imposterInboxId = None, secretWord = None,
          startedAt = None, discussionEndTime = None, currentSpeakerInboxId = None,
          votingStartedAt = None, votes = [], votedOutInboxId = None, winner = None \<rparr>"
    unfolding e by (simp add: fresh_voting_session)
  show "map_get (timers (startGame m env g)) g = Some (nextHandle m)"
    unfolding e by simp
  show "pending (startGame m env g) =
        filter (\<lambda>t. Some (fst t) \<noteq> map_get (timers m) g) (pending m)
        @ [(nextHandle m, 60000, CbFinalizeDurationVote g)]"
    unfolding e by simp
  show "outbox (startGame m env g) =
        outbox m @ [ToGroup g MsgGameStarting, ToGroup g (MsgDurationPoll (now env))]"
    unfolding e by simp
qed

theorem startGame_cases_witness:
  "isGameActive (session example_started ''g'') \<and>
   session (startGame example_started example_env ''g'') ''g'' = session example_started ''g'' \<and>
   outbox (startGame example_started example_env ''g'') =
     outbox example_started @ [ToGroup ''g'' MsgAlreadyInProgress] \<and>
   \<not> isGameActive (session newManager ''g'') \<and>
   length (members example_env_two) < 3 \<and>
   status (session (startGame newManager example_env_two ''g'') ''g'') = Idle \<and>
   outbox (startGame newManager example_env_two ''g'') = [ToGroup ''g'' MsgNeedThreePlayers] \<and>
   3 \<le> length (members example_env) \<and>
   status (session (startGame newManager example_env ''g'') ''g'') = VotingDuration \<and>
   pending (startGame newManager example_env ''g'') = [(0, 60000, CbFinalizeDurationVote ''g'')]"
  using startGame_cases [of example_started "''g''" example_env]
        startGame_cases [of newManager "''g''" example_env_two]
        startGame_cases [of newManager "''g''" example_env]
  by (simp add: example_started_eq session_eq isGameActive_def map_get_def newManager_def
      createGameState_def example_env_two_def example_env_def)

text \<open>
  The claim as stated fails on a session that has just ended: with fewer than 3 members
  the status is left at ended, not at idle.
\<close>

theorem startGame_ended_counterexample:
  "status (session example_ended ''g'') = Ended \<and>
   length (members example_env_two) = 2 \<and>
   status (session (startGame example_ended example_env_two ''g'') ''g'') = Ended \<and>
   status (session (startGame example_ended example_env_two ''g'') ''g'') \<noteq> Idle \<and>
   outbox (startGame example_ended example_env_two ''g'') =
     outbox example_ended @ [ToGroup ''g'' MsgNeedThreePlayers]"
  by (simp add: example_ended_eq example_env_two_def example_env_def manager_defs state_defs
      session_eq)

subsection \<open>The duration-vote deadline\<close>

lemma getGameStatus_store [simp]: "getGameStatus (store m g s) g = Some s"
  by (simp add: getGameStatus_def store_def map_get_def map_of_map_set)

lemma getGameStatus_send [simp]: "getGameStatus (send m g' msg) g = getGameStatus m g"
  by (simp add: getGameStatus_def send_def)

lemma getGameStatus_setTimeout [simp]:
  "getGameStatus (snd (setTimeout m cb d)) g = getGameStatus m g"
  by (simp add: getGameStatus_def setTimeout_def)

lemma addPlayers_fold_fields:
  "status (foldl (\<lambda>s i. if i \<noteq> b then addPlayer s i (a i) else s) s xs) = status s"
  "selectedDuration (foldl (\<lambda>s i. if i \<noteq> b then addPlayer s i (a i) else s) s xs)
     = selectedDuration s"
  "groupId (foldl (\<lambda>s i. if i \<noteq> b then addPlayer s i (a i) else s) s xs) = groupId s"
  by (induction xs arbitrary: s) (simp_all add: addPlayer_def)

lemma addMembers_fields [simp]:
  "status (addMembers env s) = status s"
  "selectedDuration (addMembers env s) = selectedDuration s"
  "groupId (addMembers env s) = groupId s"
  by (simp_all add: addMembers_def addPlayers_fold_fields)

lemma setImposter_fields [simp]:
  "status (setImposter s i) = status s"
  "selectedDuration (setImposter s i) = selectedDuration s"
  "groupId (setImposter s i) = groupId s"
  by (simp_all add: setImposter_def split: option.splits)


lemma session_outbox_update [simp]: "session (m\<lparr>outbox := x\<rparr>) g = session m g"
  by (simp add: session_eq)


lemma finalizeDurationVote_none:
  "status (session m g) = VotingDuration \<Longrightarrow> calculateWinningDuration (session m g) = None \<Longrightarrow>
   finalizeDurationVote m env g =
     store (send (ensured m g) g MsgNoDurationVotes) g (resetGameState (session m g))"
  by (simp add: finalizeDurationVote_def getGameState_eq)

lemma finalizeDurationVote_some:
  "status (session m g) = VotingDuration \<Longrightarrow> calculateWinningDuration (session m g) = Some w \<Longrightarrow>
   finalizeDurationVote m env g =
     assignRoles
       (send (store (ensured m g) g ((session m g)\<lparr>selectedDuration := Some w\<rparr>)) g
          (MsgDurationSelected w))
       env g"
  by (simp add: finalizeDurationVote_def getGameState_eq)

lemma finalizeDurationVote_out_of_phase:
  "status (session m g) \<noteq> VotingDuration \<Longrightarrow> finalizeDurationVote m env g = ensured m g"
  by (simp add: finalizeDurationVote_def getGameState_eq)






subsection \<open>The voting deadline\<close>

lemma finalizeVoting_none:
  "status (session m g) = Voting \<Longrightarrow> calculateVoteResults (session m g) = None \<Longrightarrow>
   finalizeVoting m env g =
     store (send (ensured m g) g MsgNoVotesDraw) g (resetGameState (session m g))"
  by (simp add: finalizeVoting_def getGameState_eq)

lemma finalizeVoting_unknown:
  "status (session m g) = Voting \<Longrightarrow> calculateVoteResults (session m g) = Some (t, c) \<Longrightarrow>
   map_get (players (session m g)) t = None \<Longrightarrow>
   finalizeVoting m env g =
     store (send (ensured m g) g MsgVoteError) g (resetGameState (session m g))"
  by (simp add: finalizeVoting_def getGameState_eq)


lemma vote_results_top:
  assumes "votes s \<noteq> []" and "earliest_top (map_values (votes s)) t" and "t \<noteq> []"
  shows "calculateVoteResults s = Some (t, count_list (map_values (votes s)) t)"
proof -
  from vote_results_some [OF assms(1)] obtain t' where
    t': "earliest_top (map_values (votes s)) t'"
    and r: "t' \<noteq> [] \<longrightarrow>
            calculateVoteResults s = Some (t', count_list (map_values (votes s)) t')"
    by blast
  have "t' = t" using t' assms(2) by (rule earliest_top_unique)
  then show ?thesis using r assms(3) by simp
qed




lemma vote_results_top_empty:
  assumes "votes s \<noteq> []" and "earliest_top (map_values (votes s)) []"
  shows "calculateVoteResults s = None"
proof -
  from vote_results_some [OF assms(1)] obtain t' where
    t': "earliest_top (map_values (votes s)) t'"
    and r: "t' = [] \<longrightarrow> calculateVoteResults s = None"
    by blast
  have "t' = []" using t' assms(2) by (rule earliest_top_unique)
  then show ?thesis using r by simp
qed

text \<open>
  A plurality winner that is a non-empty identifier and no key of the players reaches the
  guard of \<^verbatim>\<open>finalizeVoting\<close>: the error is reported and nothing else is sent,
  the session is reset to idle with no voted-out player and no winner, and no reset is
  armed.
\<close>

lemma finalizeVoting_unknown_player:
  assumes "status (session m g) = Voting"
    and "votes (session m g) \<noteq> []"
    and "earliest_top (map_values (votes (session m g))) t"
    and "t \<noteq> []"
    and "map_get (players (session m g)) t = None"
  shows "session (finalizeVoting m env g) g = resetGameState (session m g) \<and>
         status (session (finalizeVoting m env g) g) = Idle \<and>
         votedOutInboxId (session (finalizeVoting m env g) g) = None \<and>
         winner (session (finalizeVoting m env g) g) = None \<and>
         outbox (finalizeVoting m env g) = outbox m @ [ToGroup g MsgVoteError] \<and>
         pending (finalizeVoting m env g) = pending m \<and>
         timers (finalizeVoting m env g) = timers m"
proof -
  have r: "calculateVoteResults (session m g) =
      Some (t, count_list (map_values (votes (session m g))) t)"
    using assms(2-4) by (rule vote_results_top)
  note e = finalizeVoting_unknown [OF assms(1) r assms(5)]
  show ?thesis unfolding e by (simp add: resetGameState_def)
qed

text \<open>
  When the plurality winner is the empty identifier, \<^verbatim>\<open>calculateVoteResults\<close>
  gives no result, so the guard is not reached and the report is the one for no votes.
\<close>

lemma finalizeVoting_empty_identifier:
  assumes "status (session m g) = Voting"
    and "votes (session m g) \<noteq> []"
    and "earliest_top (map_values (votes (session m g))) []"
  shows "session (finalizeVoting m env g) g = resetGameState (session m g) \<and>
         outbox (finalizeVoting m env g) = outbox m @ [ToGroup g MsgNoVotesDraw] \<and>
         pending (finalizeVoting m env g) = pending m"
proof -
  have "calculateVoteResults (session m g) = None"
    using assms(2,3) by (rule vote_results_top_empty)
  note e = finalizeVoting_none [OF assms(1) this]
  show ?thesis unfolding e by simp
qed

lemma handlePlayerVote_records:
  "status (session m g) = Voting \<Longrightarrow>
   votes (session (handlePlayerVote m g v t) g) = map_set v t (votes (session m g))"
  by (simp add: handlePlayerVote_def getGameState_eq votes_recordVote)

lemma example_empty_votee_eq:
  "example_empty_votee =
     example_voting
       \<lparr>games := [(''g'', (session example_voting ''g'')
          \<lparr>players :=
             [(''p1'', \<lparr>inboxId = ''p1'', address = ''p1'', isImposter = False, hasVoted = False,
                      votedFor = None\<rparr>),
              (''p2'', \<lparr>inboxId = ''p2'', address = ''p2'', isImposter = True, hasVoted = False,
                      votedFor = None\<rparr>),
              (''p3'', \<lparr>inboxId = ''p3'', address = ''p3'', isImposter = False, hasVoted = True,
                      votedFor = Some []\<rparr>)],
           votes := [(''p3'', [])]\<rparr>)]\<rparr>"
  by (simp add: example_empty_votee_def example_voting_eq manager_defs state_defs session_eq)

text \<open>
  C10. The code at the failing input: in the voting phase of the running example the only
  accusation, by player p3, names the empty identifier, which is no key of the players.
  The vote is recorded and the empty identifier is the plurality winner with one vote, but
  \<^verbatim>\<open>calculateVoteResults\<close> takes the empty string for no result. When the voting
  deadline fires, the guard for an unknown player is not reached: the session is reset to
  idle with no winner and no reset is armed, as the claim says, but the group is not told
  of an error; it is told that no votes were received and that the game ends in a draw.
\<close>

theorem finalizeVoting_empty_votee_reports_draw:
  "status (session example_empty_votee ''g'') = Voting \<and>
   votes (session example_empty_votee ''g'') = [(''p3'', [])] \<and>
   map_get (players (session example_empty_votee ''g'')) [] = None \<and>
   max_entry (count_all (map_values (votes (session example_empty_votee ''g'')))) = (1, Some []) \<and>
   calculateVoteResults (session example_empty_votee ''g'') = None \<and>
   status (session (finalizeVoting example_empty_votee example_env ''g'') ''g'') = Idle \<and>
   winner (session (finalizeVoting example_empty_votee example_env ''g'') ''g'') = None \<and>
   pending (finalizeVoting example_empty_votee example_env ''g'') = pending example_empty_votee \<and>
   outbox (finalizeVoting example_empty_votee example_env ''g'') =
     outbox example_empty_votee @ [ToGroup ''g'' MsgNoVotesDraw] \<and>
   outbox (finalizeVoting example_empty_votee example_env ''g'') \<noteq>
     outbox example_empty_votee @ [ToGroup ''g'' MsgVoteError]"
  by (simp add: example_empty_votee_eq example_voting_eq manager_defs state_defs session_eq)

subsection \<open>Cancelling a game\<close>

lemma cancelGame_inactive:
  assumes "\<not> isGameActive (session m g)"
  shows "session (cancelGame m g) g = session m g"
    and "pending (cancelGame m g) = pending m"
    and "timers (cancelGame m g) = timers m"
    and "outbox (cancelGame m g) = outbox m @ [ToGroup g MsgNoActiveGame]"
  using assms by (simp_all add: cancelGame_def getGameState_eq)

lemma cancelGame_active:
  assumes "isGameActive (session m g)"
  shows "session (cancelGame m g) g = resetGameState (session m g)"
    and "status (session (cancelGame m g) g) = Idle"
    and "pending (cancelGame m g) =
           filter (\<lambda>t. Some (fst t) \<noteq> map_get (timers m) g) (pending m)"
    and "map_get (timers (cancelGame m g)) g = None"
    and "outbox (cancelGame m g) = outbox m @ [ToGroup g MsgGameCancelled]"
  using assms by (simp_all add: cancelGame_def getGameState_eq resetGameState_def)

lemma fire_not_pending: "h \<notin> fst ` set (pending m) \<Longrightarrow> fire m env h = Inr m"
proof -
  assume "h \<notin> fst ` set (pending m)"
  then have "find (\<lambda>t. fst t = h) (pending m) = None"
    by (force simp: find_None_iff)
  then show ?thesis by (simp add: fire_def)
qed

lemma fire_cancelled:
  assumes "isGameActive (session m g)" and "map_get (timers m) g = Some h"
  shows "fire (cancelGame m g) env h = Inr (cancelGame m g)"
  by (rule fire_not_pending) (auto simp: cancelGame_active(3) [OF assms(1)] assms(2))

text \<open>
  C2. The code at the failing input: the game of the running example is cancelled while
  the roles have been assigned and the speaker is still to be selected. The session is
  active, \<^verbatim>\<open>cancelGame\<close> resets it to idle and cancels the timeout tracked for the
  group (the duration deadline, which has already fired), but the timeout armed by
  \<^verbatim>\<open>assignRoles\<close> with a plain \<^verbatim>\<open>setTimeout\<close> is tracked nowhere and stays
  armed. When it fires after the cancellation, its callback runs on the reset session,
  finds no player and throws.
\<close>

theorem cancelGame_leaves_speaker_timeout:
  "status (session example_assigning ''g'') = AssigningRoles \<and>
   pending example_assigning = [(1, 2000, CbSelectRandomSpeaker ''g'')] \<and>
   status (session (cancelGame example_assigning ''g'') ''g'') = Idle \<and>
   players (session (cancelGame example_assigning ''g'') ''g'') = [] \<and>
   pending (cancelGame example_assigning ''g'') = [(1, 2000, CbSelectRandomSpeaker ''g'')] \<and>
   fire (cancelGame example_assigning ''g'') example_env 1 =
     Inl (TypeError, (cancelGame example_assigning ''g'')\<lparr>pending := []\<rparr>)"
  by (simp add: example_assigning_eq example_env_def manager_defs state_defs session_eq Let_def)

subsection \<open>The imposter invariant along the runs of the orchestrator\<close>

lemma session_good_keep:
  "session_good s \<Longrightarrow> players s' = players s \<Longrightarrow> imposterInboxId s' = imposterInboxId s \<Longrightarrow>
   status s' \<noteq> VotingDuration \<or> status s' = status s \<Longrightarrow> session_good s'"
  unfolding session_good_def using session_wf_cong [of s' s] by auto

lemma session_good_reset: "session_good (resetGameState s)"
  by (simp add: session_good_def session_wf_def imposter_invariant_def resetGameState_def
      map_keys_def)

lemma session_good_fresh: "session_good ((resetGameState s)\<lparr>status := VotingDuration\<rparr>)"
  by (simp add: session_good_def session_wf_def imposter_invariant_def resetGameState_def
      map_keys_def)

lemma session_good_create: "session_good (createGameState g)"
  by (simp add: session_good_def session_wf_create) (simp add: createGameState_def)

lemma session_clearTimeout [simp]: "session (clearTimeout m h) g = session m g"
  by (simp add: session_eq clearTimeout_def)

lemma manager_good_store:
  "manager_good m \<Longrightarrow> session_good s \<Longrightarrow> manager_good (store m g s)"
  by (simp add: manager_good_def)

lemma manager_good_same:
  "manager_good m \<Longrightarrow> (\<And>g. session m' g = session m g) \<Longrightarrow> manager_good m'"
  by (simp add: manager_good_def)

lemma manager_good_simps [simp]:
  "manager_good (ensured m g) = manager_good m"
  "manager_good (send m g msg) = manager_good m"
  "manager_good (setTimer m g cb d) = manager_good m"
  "manager_good (snd (setTimeout m cb d)) = manager_good m"
  "manager_good (clearTimer m g) = manager_good m"
  "manager_good (clearTimeout m h) = manager_good m"
  "manager_good (m\<lparr>outbox := x\<rparr>) = manager_good m"
  by (simp_all add: manager_good_def)

lemma manager_good_new: "manager_good newManager"
  by (simp add: manager_good_def session_eq newManager_def map_get_def session_good_create)

lemma manager_goodD: "manager_good m \<Longrightarrow> session_good (session m g)"
  by (simp add: manager_good_def)

lemma good_startGame: "manager_good m \<Longrightarrow> manager_good (startGame m env g)"
  by (cases "isGameActive (session m g)"; cases "length (members env) < 3")
     (simp_all add: startGame_active startGame_few startGame_ok manager_good_store
        session_good_fresh)

lemma good_handleDurationVote:
  assumes "manager_good m"
  shows "manager_good (handleDurationVote m g v d)"
proof (cases "status (session m g) = VotingDuration")
  case True
  have "session_good (recordDurationVote (session m g) v d)"
    by (rule session_good_keep [OF manager_goodD [OF assms, of g]])
       (simp_all add: recordDurationVote_def)
  then show ?thesis
    using assms True by (simp add: handleDurationVote_def getGameState_eq manager_good_store)
next
  case False
  then show ?thesis using assms by (simp add: handleDurationVote_def getGameState_eq)
qed

lemma status_recordVote [simp]: "status (recordVote s v t) = status s"
  by (simp add: recordVote_def Let_def split: option.splits)

lemma good_handlePlayerVote:
  assumes "manager_good m"
  shows "manager_good (handlePlayerVote m g v t)"
proof (cases "status (session m g) = Voting")
  case True
  have "session_wf (recordVote (session m g) v t)"
    using manager_goodD [OF assms, of g] by (simp add: session_good_def session_wf_recordVote)
  then have "session_good (recordVote (session m g) v t)"
    using True by (simp add: session_good_def)
  then show ?thesis
    using assms True by (simp add: handlePlayerVote_def getGameState_eq manager_good_store)
next
  case False
  then show ?thesis using assms by (simp add: handlePlayerVote_def getGameState_eq)
qed

lemma good_cancelGame: "manager_good m \<Longrightarrow> manager_good (cancelGame m g)"
  by (simp add: cancelGame_def getGameState_eq manager_good_store session_good_reset)

lemma good_shutdown: "manager_good m \<Longrightarrow> manager_good (shutdown m)"
  by (rule manager_good_same) (simp_all add: shutdown_def session_eq)

lemma addPlayers_fold_wf:
  "session_wf s \<Longrightarrow>
   session_wf (foldl (\<lambda>s i. if i \<noteq> b then addPlayer s i (a i) else s) s xs)"
  by (induction xs arbitrary: s) (simp_all add: session_wf_addPlayer)

lemma addPlayers_fold_imposter:
  "imposterInboxId (foldl (\<lambda>s i. if i \<noteq> b then addPlayer s i (a i) else s) s xs)
     = imposterInboxId s"
  by (induction xs arbitrary: s) (simp_all add: addPlayer_def)

lemma session_wf_roles:
  assumes "session_wf s" and "imposterInboxId s = None"
  shows "session_wf ((setImposter (addMembers env (s\<lparr>status := AssigningRoles\<rparr>)) i)
                        \<lparr>secretWord := Some w\<rparr>)"
proof -
  have "session_wf (s\<lparr>status := AssigningRoles\<rparr>)"
    using assms(1) session_wf_cong [of "s\<lparr>status := AssigningRoles\<rparr>" s] by simp
  then have a: "session_wf (addMembers env (s\<lparr>status := AssigningRoles\<rparr>))"
    unfolding addMembers_def by (rule addPlayers_fold_wf)
  have b: "imposterInboxId (addMembers env (s\<lparr>status := AssigningRoles\<rparr>)) = None"
    unfolding addMembers_def by (simp add: addPlayers_fold_imposter assms(2))
  have "session_wf (setImposter (addMembers env (s\<lparr>status := AssigningRoles\<rparr>)) i)"
    using a b by (simp add: session_wf_setImposter)
  then show ?thesis
    using session_wf_cong
      [of "(setImposter (addMembers env (s\<lparr>status := AssigningRoles\<rparr>)) i)\<lparr>secretWord := Some w\<rparr>"
          "setImposter (addMembers env (s\<lparr>status := AssigningRoles\<rparr>)) i"]
    by simp
qed

lemma good_assignRoles:
  assumes "manager_good m" and "imposterInboxId (session m g) = None"
  shows "manager_good (assignRoles m env g)"
proof -
  have wf: "session_wf (session m g)"
    using manager_goodD [OF assms(1), of g] by (simp add: session_good_def)
  have "\<And>i w. session_good ((setImposter (addMembers env ((session m g)\<lparr>status := AssigningRoles\<rparr>)) i)
                        \<lparr>secretWord := Some w\<rparr>)"
    using session_wf_roles [OF wf assms(2)] by (simp add: session_good_def)
  then show ?thesis
    using assms(1)
    by (auto simp: assignRoles_def getGameState_eq Let_def manager_good_def
        session_good_reset split: prod.splits)
qed

lemma good_finalizeDurationVote:
  assumes "manager_good m"
  shows "manager_good (finalizeDurationVote m env g)"
proof (cases "status (session m g) = VotingDuration")
  case False
  then show ?thesis using assms by (simp add: finalizeDurationVote_def getGameState_eq)
next
  case True
  have sg: "session_good (session m g)" by (rule manager_goodD [OF assms])
  then have none: "imposterInboxId (session m g) = None"
    using True by (simp add: session_good_def)
  show ?thesis
  proof (cases "calculateWinningDuration (session m g)")
    case None
    show ?thesis
      unfolding finalizeDurationVote_none [OF True None]
      using assms by (simp add: manager_good_store session_good_reset)
  next
    case (Some w)
    define m1 where
      "m1 = send (store (ensured m g) g ((session m g)\<lparr>selectedDuration := Some w\<rparr>)) g
              (MsgDurationSelected w)"
    have "session_good ((session m g)\<lparr>selectedDuration := Some w\<rparr>)"
      by (rule session_good_keep [OF sg]) simp_all
    then have g1: "manager_good m1"
      using assms by (simp add: m1_def manager_good_store)
    have n1: "imposterInboxId (session m1 g) = None"
      using none by (simp add: m1_def)
    show ?thesis
      unfolding finalizeDurationVote_some [OF True Some] m1_def [symmetric]
      using g1 n1 by (rule good_assignRoles)
  qed
qed

lemma good_startDiscussionPhase:
  assumes "manager_good m"
  shows "manager_good (startDiscussionPhase m env g)"
proof -
  have "\<And>a b. session_good ((session m g)\<lparr>status := Discussion, startedAt := a,
                                  discussionEndTime := b\<rparr>)"
    by (rule session_good_keep [OF manager_goodD [OF assms, of g]]) simp_all
  then show ?thesis
    using assms by (simp add: startDiscussionPhase_def getGameState_eq Let_def
        manager_good_store)
qed

lemma good_selectRandomSpeaker:
  assumes "manager_good m"
  shows "manager_good (after_fire (selectRandomSpeaker m env g))"
proof -
  have "\<And>a. session_good ((session m g)\<lparr>currentSpeakerInboxId := a\<rparr>)"
    by (rule session_good_keep [OF manager_goodD [OF assms, of g]]) simp_all
  then show ?thesis
    using assms
    by (simp add: selectRandomSpeaker_def getGameState_eq Let_def after_fire_def
        good_startDiscussionPhase manager_good_store)
qed

lemma good_startVotingPhase:
  assumes "manager_good m"
  shows "manager_good (startVotingPhase m env g)"
proof -
  have "\<And>a. session_good ((session m g)\<lparr>status := Voting, votingStartedAt := a\<rparr>)"
    by (rule session_good_keep [OF manager_goodD [OF assms, of g]]) simp_all
  then show ?thesis
    using assms by (simp add: startVotingPhase_def getGameState_eq Let_def manager_good_store)
qed

lemma good_endDiscussionPhase:
  "manager_good m \<Longrightarrow> manager_good (endDiscussionPhase m env g)"
  by (simp add: endDiscussionPhase_def getGameState_eq good_startVotingPhase)

lemma good_finalizeVoting:
  assumes "manager_good m"
  shows "manager_good (finalizeVoting m env g)"
proof -
  have "\<And>a b. session_good ((session m g)\<lparr>votedOutInboxId := a, winner := b, status := Ended\<rparr>)"
    by (rule session_good_keep [OF manager_goodD [OF assms, of g]]) simp_all
  then show ?thesis
    using assms
    by (auto simp: finalizeVoting_def getGameState_eq Let_def manager_good_def
        session_good_reset split: option.splits prod.splits)
qed

lemma good_runCallback:
  assumes "manager_good m"
  shows "manager_good (after_fire (runCallback m env cb))"
proof (cases cb)
  case (CbFinalizeDurationVote g)
  then show ?thesis
    using assms by (simp add: runCallback_def after_fire_def good_finalizeDurationVote)
next
  case (CbSelectRandomSpeaker g)
  then show ?thesis
    using good_selectRandomSpeaker [OF assms] by (simp add: runCallback_def)
next
  case (CbEndDiscussion g)
  then show ?thesis
    using assms by (simp add: runCallback_def after_fire_def good_endDiscussionPhase)
next
  case (CbFinalizeVoting g)
  then show ?thesis
    using assms by (simp add: runCallback_def after_fire_def good_finalizeVoting)
next
  case (CbResetState g)
  then show ?thesis
    using assms
    by (simp add: runCallback_def after_fire_def manager_good_store session_good_reset
        split: option.splits)
qed

lemma good_fire: "manager_good m \<Longrightarrow> manager_good (after_fire (fire m env h))"
  by (cases "find (\<lambda>t. fst t = h) (pending m)")
     (simp_all add: fire_def after_fire_def [of "Inr m"] good_runCallback)

lemma good_step: "manager_good m \<Longrightarrow> manager_good (step m e)"
  by (cases e)
     (simp_all add: good_startGame good_handleDurationVote good_handlePlayerVote
        good_cancelGame good_fire good_shutdown)

lemma good_run_events: "manager_good m \<Longrightarrow> manager_good (run_events m es)"
  by (induction es arbitrary: m) (simp_all add: good_step)

lemma reachable_imposter_invariant:
  "imposter_invariant (session (run_events newManager es) g)"
  using manager_goodD [OF good_run_events [OF manager_good_new], of es g]
  by (simp add: session_good_def session_wf_def)

lemma guarded_imposter_invariant:
  "ops_allowed (createGameState g) xs \<Longrightarrow> imposter_invariant (run_ops (createGameState g) xs)"
  using session_wf_run_ops [OF session_wf_create] by (simp add: session_wf_def)

text \<open>
  C8 (as amended). The imposter invariant (when the imposter identifier is set, it is a
  key of the players, that player is flagged as imposter, and no player under another
  key is flagged) holds after every sequence of operations on a fresh session
  (\<^verbatim>\<open>addPlayer\<close>, \<^verbatim>\<open>setImposter\<close>, \<^verbatim>\<open>recordDurationVote\<close>,
  \<^verbatim>\<open>recordVote\<close>, \<^verbatim>\<open>resetGameState\<close>) in which \<^verbatim>\<open>setImposter\<close> is applied
  only while no imposter is set, or again to the player who already is the imposter. The
  orchestrator applies it only so: every session of every manager that a sequence of
  events (commands, fired timeouts, shutdown) reaches from a new manager satisfies the
  invariant.
\<close>

theorem imposter_invariant_preserved:
  "(ops_allowed (createGameState g) xs \<longrightarrow>
      imposter_invariant (run_ops (createGameState g) xs)) \<and>
   imposter_invariant (session (run_events newManager es) g')"
  using guarded_imposter_invariant [of g xs] reachable_imposter_invariant [of es g']
  by blast

theorem imposter_invariant_preserved_witness:
  "ops_allowed (createGameState ''g'')
     [OpAddPlayer ''a'' ''0xa'', OpAddPlayer ''b'' ''0xb'', OpAddPlayer ''c'' ''0xc'',
      OpSetImposter ''b'', OpRecordVote ''a'' ''b'', OpAddPlayer ''a'' ''0xa''] \<and>
   imposter_invariant (run_ops (createGameState ''g'')
     [OpAddPlayer ''a'' ''0xa'', OpAddPlayer ''b'' ''0xb'', OpAddPlayer ''c'' ''0xc'',
      OpSetImposter ''b'', OpRecordVote ''a'' ''b'', OpAddPlayer ''a'' ''0xa'']) \<and>
   imposterInboxId (run_ops (createGameState ''g'')
     [OpAddPlayer ''a'' ''0xa'', OpAddPlayer ''b'' ''0xb'', OpAddPlayer ''c'' ''0xc'',
      OpSetImposter ''b'', OpRecordVote ''a'' ''b'', OpAddPlayer ''a'' ''0xa'']) = Some ''b'' \<and>
   imposter_invariant (session (run_events newManager
     [EvStart ''g'' example_env, EvDurationVote ''g'' ''p1'' D5, EvFire 0 example_env]) ''g'') \<and>
   run_events newManager
     [EvStart ''g'' example_env, EvDurationVote ''g'' ''p1'' D5, EvFire 0 example_env]
     = example_assigning \<and>
   imposterInboxId (session example_assigning ''g'') = Some ''p2''"
proof -
  have h: "ops_allowed (createGameState ''g'')
     [OpAddPlayer ''a'' ''0xa'', OpAddPlayer ''b'' ''0xb'', OpAddPlayer ''c'' ''0xc'',
      OpSetImposter ''b'', OpRecordVote ''a'' ''b'', OpAddPlayer ''a'' ''0xa'']"
    by (simp add: createGameState_def addPlayer_def setImposter_def recordVote_def
        map_has_def map_get_def)
  have r: "run_events newManager
     [EvStart ''g'' example_env, EvDurationVote ''g'' ''p1'' D5, EvFire 0 example_env]
     = example_assigning"
    by (simp add: example_assigning_def example_voted_def example_started_def)
  have i: "imposterInboxId (session example_assigning ''g'') = Some ''p2''"
    by (simp add: example_assigning_eq session_eq map_get_def)
  have o: "imposterInboxId (run_ops (createGameState ''g'')
     [OpAddPlayer ''a'' ''0xa'', OpAddPlayer ''b'' ''0xb'', OpAddPlayer ''c'' ''0xc'',
      OpSetImposter ''b'', OpRecordVote ''a'' ''b'', OpAddPlayer ''a'' ''0xa'']) = Some ''b''"
    by (simp add: createGameState_def addPlayer_def setImposter_def recordVote_def
        map_has_def map_get_def)
  show ?thesis
    using h r i o
      imposter_invariant_preserved [of "''g''"
        "[OpAddPlayer ''a'' ''0xa'', OpAddPlayer ''b'' ''0xb'', OpAddPlayer ''c'' ''0xc'',
          OpSetImposter ''b'', OpRecordVote ''a'' ''b'', OpAddPlayer ''a'' ''0xa'']"
        "[EvStart ''g'' example_env, EvDurationVote ''g'' ''p1'' D5, EvFire 0 example_env]"
        "''g''"]
    by blast
qed

text \<open>
  The claim as stated fails for \<^verbatim>\<open>setImposter\<close> itself: applied to a session whose
  imposter is another player it flags the new player and leaves the old flag, so two
  players are flagged.
\<close>

theorem setImposter_twice_counterexample:
  "imposter_invariant (run_ops (createGameState ''g'')
     [OpAddPlayer ''a'' ''0xa'', OpAddPlayer ''b'' ''0xb'', OpSetImposter ''a'']) \<and>
   \<not> imposter_invariant (setImposter (run_ops (createGameState ''g'')
     [OpAddPlayer ''a'' ''0xa'', OpAddPlayer ''b'' ''0xb'', OpSetImposter ''a'']) ''b'') \<and>
   map (\<lambda>e. (fst e, isImposter (snd e))) (players (setImposter (run_ops (createGameState ''g'')
     [OpAddPlayer ''a'' ''0xa'', OpAddPlayer ''b'' ''0xb'', OpSetImposter ''a'']) ''b''))
     = [(''a'', True), (''b'', True)]"
  by (simp add: createGameState_def addPlayer_def setImposter_def map_has_def map_get_def
      imposter_invariant_def)

end
